theory Spec2Isabelle
  imports Main "HOL-Library.Code_Target_Nat"
begin

section \<open>JavaScript strings\<close>

text \<open>
  A JavaScript string is a sequence of UTF-16 code units; \<open>length\<close>, \<open>endsWith\<close>,
  \<open>includes\<close> and the regular expressions of \<^verbatim>\<open>src/utils/api.ts\<close> (none has the
  \<^verbatim>\<open>u\<close> flag) all work on code units. A code unit is held as a natural number, so that
  the ellipsis U+2026 and the Devanagari block U+0900..U+097F are one element each, as
  they are for the source. \<open>ascii\<close> turns an Isabelle literal into such a string.
\<close>

type_synonym jsstring = "nat list"

definition ascii :: "string \<Rightarrow> jsstring" where
  "ascii s = map of_char s"

text \<open>
  \<^verbatim>\<open>\s\<close> of a regular expression and the characters \<^verbatim>\<open>trim()\<close> removes are the same
  set: the ECMAScript white space and line terminator code points.
\<close>

definition isWhiteSpace :: "nat \<Rightarrow> bool" where
  "isWhiteSpace c \<longleftrightarrow>
     c = 9 \<or> c = 10 \<or> c = 11 \<or> c = 12 \<or> c = 13 \<or> c = 32 \<or> c = 160 \<or> c = 5760 \<or>
     (8192 \<le> c \<and> c \<le> 8202) \<or> c = 8232 \<or> c = 8233 \<or> c = 8239 \<or> c = 8287 \<or>
     c = 12288 \<or> c = 65279"

text \<open>\<^verbatim>\<open>\w\<close> is \<^verbatim>\<open>[A-Za-z0-9_]\<close>.\<close>

definition isWordChar :: "nat \<Rightarrow> bool" where
  "isWordChar c \<longleftrightarrow>
     (65 \<le> c \<and> c \<le> 90) \<or> (97 \<le> c \<and> c \<le> 122) \<or> (48 \<le> c \<and> c \<le> 57) \<or> c = 95"

definition trim :: "jsstring \<Rightarrow> jsstring" where
  "trim s = rev (dropWhile isWhiteSpace (rev (dropWhile isWhiteSpace s)))"

definition startsWith :: "jsstring \<Rightarrow> jsstring \<Rightarrow> bool" where
  "startsWith s p \<longleftrightarrow> take (length p) s = p"

definition endsWith :: "jsstring \<Rightarrow> jsstring \<Rightarrow> bool" where
  "endsWith s p \<longleftrightarrow> length p \<le> length s \<and> drop (length s - length p) s = p"

fun includes_js :: "jsstring \<Rightarrow> jsstring \<Rightarrow> bool" where
  "includes_js [] p = (p = [])"
| "includes_js (c # cs) p = (startsWith (c # cs) p \<or> includes_js cs p)"

text \<open>
  \<^verbatim>\<open>s.split(/\s+/)\<close>: the pieces between the maximal runs of white space. A run at the
  start or at the end of \<open>s\<close> leaves an empty piece there, and the empty string gives
  one empty piece. \<open>cur\<close> is the piece read so far.
\<close>

function splitWhiteSpace :: "jsstring \<Rightarrow> jsstring \<Rightarrow> jsstring list" where
  "splitWhiteSpace cur [] = [cur]"
| "splitWhiteSpace cur (c # cs) =
     (if isWhiteSpace c then cur # splitWhiteSpace [] (dropWhile isWhiteSpace cs)
      else splitWhiteSpace (cur @ [c]) cs)"
  by pat_completeness auto
termination
  by (relation "measure (\<lambda>(cur, s). length s)")
     (auto simp: less_Suc_eq_le length_dropWhile_le)

definition split_ws :: "jsstring \<Rightarrow> jsstring list" where
  "split_ws s = splitWhiteSpace [] s"

text \<open>\<^verbatim>\<open>xs.slice(-2)\<close>: the last two elements, or all of them when there are fewer.\<close>

definition slice_last2 :: "'a list \<Rightarrow> 'a list" where
  "slice_last2 xs = drop (length xs - 2) xs"

text \<open>
  \<^verbatim>\<open>toLowerCase()\<close>, as far as the source needs it: its result is only ever compared
  with ASCII words or ASCII handles. The code units whose lower case is an ASCII letter
  are \<^verbatim>\<open>A\<close>..\<^verbatim>\<open>Z\<close> and the Kelvin sign U+212A (lower case \<^verbatim>\<open>k\<close>); every other code
  unit is left as it is, which changes no comparison with an ASCII word.
\<close>

definition lowerUnit :: "nat \<Rightarrow> nat" where
  "lowerUnit c = (if 65 \<le> c \<and> c \<le> 90 then c + 32 else if c = 8490 then 107 else c)"

definition toLowerCase :: "jsstring \<Rightarrow> jsstring" where
  "toLowerCase s = map lowerUnit s"

section \<open>Text normalizer\<close>

text \<open>
  \<^verbatim>\<open>detectTruncatedText\<close> (api.ts, lines 179-202). The ellipsis is code unit 8230.
\<close>

definition ellipsis :: jsstring where
  "ellipsis = [8230]"

definition commonTruncationEnders :: "jsstring list" where
  "commonTruncationEnders = map ascii
     [''the'', ''a'', ''an'', ''to'', ''in'', ''on'', ''at'', ''by'', ''for'', ''with'',
      ''about'', ''like'', ''of'', ''all'']"

text \<open>
  The character class of the script test: the blocks U+0900..U+097F (Devanagari),
  U+0600..U+06FF, U+0590..U+05FF, U+0E00..U+0E7F, U+3040..U+30FF, U+3400..U+4DBF and
  U+4E00..U+9FFF.
\<close>

definition isNonLatinUnit :: "nat \<Rightarrow> bool" where
  "isNonLatinUnit c \<longleftrightarrow>
     (2304 \<le> c \<and> c \<le> 2431) \<or> (1536 \<le> c \<and> c \<le> 1791) \<or> (1424 \<le> c \<and> c \<le> 1535) \<or>
     (3584 \<le> c \<and> c \<le> 3711) \<or> (12352 \<le> c \<and> c \<le> 12543) \<or> (13312 \<le> c \<and> c \<le> 19903) \<or>
     (19968 \<le> c \<and> c \<le> 40959)"

definition hasNonLatinScript :: "jsstring \<Rightarrow> bool" where
  "hasNonLatinScript text = list_ex isNonLatinUnit text"

text \<open>\<^verbatim>\<open>/[.!?"]$/.test(s)\<close>: the last code unit of \<open>s\<close> is one of the four.\<close>

definition isTerminalUnit :: "nat \<Rightarrow> bool" where
  "isTerminalUnit c \<longleftrightarrow> c = 46 \<or> c = 33 \<or> c = 63 \<or> c = 34"

definition endsInTerminal :: "jsstring \<Rightarrow> bool" where
  "endsInTerminal s \<longleftrightarrow> s \<noteq> [] \<and> isTerminalUnit (last s)"

definition lastWords :: "jsstring \<Rightarrow> jsstring list" where
  "lastWords text = slice_last2 (split_ws (trim text))"

definition detectTruncatedText :: "jsstring \<Rightarrow> bool" where
  "detectTruncatedText text =
     (if text = [] \<or> length (trim text) = 0 then False
      else if endsWith text ellipsis \<or> endsWith text (ascii ''...'') then True
      else if includes_js text (ellipsis @ ascii '' https://'') \<or>
              includes_js text (ascii ''... https://'') then True
      else if length (lastWords text) > 0 \<and>
              toLowerCase (last (lastWords text)) \<in> set commonTruncationEnders then True
      else let thresholdLength = (if hasNonLatinScript text then 180 else 240 :: nat)
           in if length text \<ge> thresholdLength \<and> \<not> endsInTerminal (trim text) then True
              else False)"

section \<open>Post normalizer\<close>

text \<open>
  \<^verbatim>\<open>processTweet\<close> (api.ts, lines 205-269). The three replacements that clean the text
  are written as list functions; each regular expression is anchored or greedy in a way
  that leaves one possible match:
  \<^item> \<^verbatim>\<open>/\s*https:\/\/t\.co\/\w+$/g\<close>: the text ends in the link followed by one or more
    word characters; the leftmost match also takes all white space before the link;
  \<^item> \<^verbatim>\<open>/(\s*[\<dots>\.]{3,})$/g\<close> (the class holds the ellipsis and the full stop): the text
    ends in a run of three or more such characters; the match also takes all white space
    before the run;
  \<^item> \<^verbatim>\<open>/\n{3,}/g\<close>: every maximal run of three or more line feeds becomes two.
\<close>

definition takeWhileEnd :: "('a \<Rightarrow> bool) \<Rightarrow> 'a list \<Rightarrow> 'a list" where
  "takeWhileEnd P s = rev (takeWhile P (rev s))"

definition dropWhileEnd :: "('a \<Rightarrow> bool) \<Rightarrow> 'a list \<Rightarrow> 'a list" where
  "dropWhileEnd P s = rev (dropWhile P (rev s))"

definition tcoLink :: jsstring where
  "tcoLink = ascii ''https://t.co/''"

definition stripTrailingLink :: "jsstring \<Rightarrow> jsstring" where
  "stripTrailingLink s =
     (let w = takeWhileEnd isWordChar s; r = dropWhileEnd isWordChar s
      in if w \<noteq> [] \<and> endsWith r tcoLink
         then dropWhileEnd isWhiteSpace (take (length r - length tcoLink) r)
         else s)"

definition isDotUnit :: "nat \<Rightarrow> bool" where
  "isDotUnit c \<longleftrightarrow> c = 8230 \<or> c = 46"

definition stripTrailingDots :: "jsstring \<Rightarrow> jsstring" where
  "stripTrailingDots s =
     (let d = takeWhileEnd isDotUnit s; r = dropWhileEnd isDotUnit s
      in if length d \<ge> 3 then dropWhileEnd isWhiteSpace r else s)"

function collapseNewlines :: "jsstring \<Rightarrow> jsstring" where
  "collapseNewlines [] = []"
| "collapseNewlines (c # cs) =
     (if c = 10
      then (let run = takeWhile (\<lambda>x. x = 10) cs
            in (if length run \<ge> 2 then [10, 10] else c # run) @
               collapseNewlines (dropWhile (\<lambda>x. x = 10) cs))
      else c # collapseNewlines cs)"
  by pat_completeness auto
termination
  by (relation "measure length") (auto simp: less_Suc_eq_le length_dropWhile_le)

definition cleanText :: "jsstring \<Rightarrow> jsstring" where
  "cleanText textContent = collapseNewlines (stripTrailingDots (stripTrailingLink textContent))"

text \<open>
  An optional string field is \<open>None\<close> when it is \<^verbatim>\<open>undefined\<close>. It is truthy when it is
  present and not empty. \<open>js_or a b\<close> is \<^verbatim>\<open>a || b\<close>; \<open>str_or a d\<close> is \<^verbatim>\<open>a || d\<close> for a \<open>d\<close>
  that is a string.
\<close>

definition truthy :: "jsstring option \<Rightarrow> bool" where
  "truthy v = (case v of None \<Rightarrow> False | Some s \<Rightarrow> s \<noteq> [])"

definition js_or :: "jsstring option \<Rightarrow> jsstring option \<Rightarrow> jsstring option" where
  "js_or a b = (if truthy a then a else b)"

definition str_or :: "jsstring option \<Rightarrow> jsstring \<Rightarrow> jsstring" where
  "str_or a d = (case a of None \<Rightarrow> d | Some s \<Rightarrow> if s \<noteq> [] then s else d)"

text \<open>
  The raw record of the API, with the fields the normalizer reads for the text, the ids
  and the reply linkage (\<^verbatim>\<open>extended_tweet.full_text\<close> is \<open>raw_extended_tweet_full_text\<close>,
  \<^verbatim>\<open>user.user_id\<close> is \<open>raw_user_id\<close>, \<^verbatim>\<open>user.username\<close> is \<open>raw_username\<close>). The media
  arrays, the display name, the avatar and the three other counters are copied by the
  normalizer and read by nothing below; they are left out. The canonical post keeps the
  source's field names, except \<open>tweet_id\<close> for \<^verbatim>\<open>id\<close>, \<open>tweet_text\<close> for \<^verbatim>\<open>text\<close>, and
  \<open>author_id\<close>, \<open>author_username\<close> for \<^verbatim>\<open>author.id\<close>, \<^verbatim>\<open>author.username\<close>. \<open>is_self_thread\<close>
  holds the truthiness of the source's value.
\<close>

record RawTweet =
  raw_tweet_id :: jsstring
  raw_text :: "jsstring option"
  raw_extended_text :: "jsstring option"
  raw_extended_tweet_full_text :: "jsstring option"
  raw_full_text :: "jsstring option"
  raw_creation_date :: jsstring
  raw_user_id :: "jsstring option"
  raw_username :: "jsstring option"
  raw_reply_count :: "nat option"
  raw_conversation_id :: "jsstring option"
  raw_in_reply_to_status_id :: "jsstring option"
  raw_in_reply_to_tweet_id :: "jsstring option"
  raw_in_reply_to_user_id :: "jsstring option"
  raw_thread_id :: "jsstring option"

record Tweet =
  tweet_id :: jsstring
  tweet_text :: jsstring
  full_text :: "jsstring option"
  created_at :: jsstring
  author_id :: "jsstring option"
  author_username :: "jsstring option"
  reply_count :: nat
  conversation_id :: "jsstring option"
  in_reply_to_user_id :: "jsstring option"
  in_reply_to_tweet_id :: "jsstring option"
  is_long :: bool
  thread_id :: "jsstring option"
  is_self_thread :: bool
  thread_position :: "int option"
  thread_index :: "int option"

definition textContent :: "RawTweet \<Rightarrow> jsstring" where
  "textContent tweet =
     str_or (raw_extended_text tweet) (str_or (raw_extended_tweet_full_text tweet)
       (str_or (raw_full_text tweet) (str_or (raw_text tweet) [])))"

definition processTweet :: "RawTweet \<Rightarrow> Tweet" where
  "processTweet tweet =
     (let isLikelyTruncated = detectTruncatedText (textContent tweet);
          cleanedText = cleanText (textContent tweet);
          conversation_id = str_or (raw_conversation_id tweet)
             (str_or (raw_in_reply_to_status_id tweet) (raw_tweet_id tweet));
          thread_id = str_or (raw_thread_id tweet) conversation_id;
          in_reply_to_tweet_id =
             js_or (raw_in_reply_to_tweet_id tweet) (raw_in_reply_to_status_id tweet);
          isSelfThread = (truthy (raw_in_reply_to_user_id tweet) \<and> truthy (raw_user_id tweet) \<and>
             raw_in_reply_to_user_id tweet = raw_user_id tweet)
      in \<lparr> tweet_id = raw_tweet_id tweet,
           tweet_text = str_or (raw_text tweet) [],
           full_text = Some cleanedText,
           created_at = raw_creation_date tweet,
           author_id = raw_user_id tweet,
           author_username = raw_username tweet,
           reply_count = (case raw_reply_count tweet of None \<Rightarrow> 0 | Some n \<Rightarrow> n),
           conversation_id = Some conversation_id,
           in_reply_to_user_id = raw_in_reply_to_user_id tweet,
           in_reply_to_tweet_id = in_reply_to_tweet_id,
           is_long = (length (textContent tweet) > 280 \<or> isLikelyTruncated),
           thread_id = Some thread_id,
           is_self_thread = isSelfThread,
           thread_position = None,
           thread_index = None \<rparr>)"

section \<open>Rate-limited request gateway\<close>

text \<open>
  \<^verbatim>\<open>rateLimit\<close>, \<^verbatim>\<open>hasRecentlyFailed\<close>, \<^verbatim>\<open>recordFailedRequest\<close> and \<^verbatim>\<open>makeApiRequest\<close> (api.ts,
  lines 51-59 and 94-176). The module state is a record: the failure cache, the clock
  (\<^verbatim>\<open>Date.now()\<close>, in milliseconds), the time of the last call, and the urls sent so far.
  A timer advances the clock by its delay. The network is a function: the \<open>n\<close>-th request
  sent, to a url, gets a response with a status, a body that parses to JSON or does not,
  and the time it took. A rejected promise is an \<open>Inl\<close> result.

  A first attempt goes through the request queue and a retry calls the network
  directly. The model runs one request at a time, so that a queued request starts at once;
  the pause of the drain loop after a request only delays the requests that follow and is
  left out.
\<close>

definition MIN_API_CALL_INTERVAL :: int where "MIN_API_CALL_INTERVAL = 2000"
definition MAX_RETRIES :: nat where "MAX_RETRIES = 2"
definition RETRY_DELAY :: int where "RETRY_DELAY = 3000"
definition FAILED_REQUEST_EXPIRY :: int where "FAILED_REQUEST_EXPIRY = 10 * 60 * 1000"

record FailedRequest =
  timestamp :: int
  errorCode :: int
  retryAfter :: "int option"

record 'j Response =
  status :: int
  responseJSON :: "'j option"
  latency :: nat

datatype JsError =
    SkippedRecentlyFailed jsstring
  | ParseFailed
  | ApiError int
  | TypeError
  | RangeError
  | UserIdNotFound jsstring

record Gateway =
  failedRequests :: "jsstring \<rightharpoonup> FailedRequest"
  clock :: int
  lastApiCallTime :: int
  sentRequests :: "jsstring list"

type_synonym 'j network = "nat \<Rightarrow> jsstring \<Rightarrow> 'j Response"

definition sleep :: "int \<Rightarrow> Gateway \<Rightarrow> Gateway" where
  "sleep ms g = g\<lparr>clock := clock g + max 0 ms\<rparr>"

definition rateLimit :: "Gateway \<Rightarrow> Gateway" where
  "rateLimit g =
     (let timeSinceLastCall = clock g - lastApiCallTime g;
          g1 = (if timeSinceLastCall < MIN_API_CALL_INTERVAL
                then sleep (MIN_API_CALL_INTERVAL - timeSinceLastCall) g else g)
      in g1\<lparr>lastApiCallTime := clock g1\<rparr>)"

definition hasRecentlyFailed :: "jsstring \<Rightarrow> Gateway \<Rightarrow> bool \<times> Gateway" where
  "hasRecentlyFailed url g =
     (case failedRequests g url of
        None \<Rightarrow> (False, g)
      | Some failedRequest \<Rightarrow>
          if clock g - timestamp failedRequest > FAILED_REQUEST_EXPIRY
          then (False, g\<lparr>failedRequests := (failedRequests g)(url := None)\<rparr>)
          else if (case retryAfter failedRequest of None \<Rightarrow> False
                   | Some deadline \<Rightarrow> deadline \<noteq> 0 \<and> clock g > deadline)
          then (False, g\<lparr>failedRequests := (failedRequests g)(url := None)\<rparr>)
          else (True, g))"

definition recordFailedRequest :: "jsstring \<Rightarrow> int \<Rightarrow> int option \<Rightarrow> Gateway \<Rightarrow> Gateway" where
  "recordFailedRequest url code retryAfterMs g =
     (let entry = \<lparr> timestamp = clock g, errorCode = code,
                     retryAfter = (case retryAfterMs of None \<Rightarrow> None
                        | Some ms \<Rightarrow> if ms \<noteq> 0 then Some (clock g + ms) else None) \<rparr>;
          m = (failedRequests g)(url \<mapsto> entry)
      in g\<lparr>failedRequests :=
            (\<lambda>key. case m key of None \<Rightarrow> None
               | Some v \<Rightarrow> if clock g - timestamp v > FAILED_REQUEST_EXPIRY then None else Some v)\<rparr>)"

definition xhrSend :: "'j network \<Rightarrow> jsstring \<Rightarrow> Gateway \<Rightarrow> 'j Response \<times> Gateway" where
  "xhrSend net url g =
     (let g1 = rateLimit g;
          response = net (length (sentRequests g1)) url
      in (response, g1\<lparr>sentRequests := sentRequests g1 @ [url],
                        clock := clock g1 + int (latency response)\<rparr>))"

function makeApiRequest ::
  "'j network \<Rightarrow> jsstring \<Rightarrow> nat \<Rightarrow> Gateway \<Rightarrow> (JsError + 'j) \<times> Gateway" where
  "makeApiRequest net url retryCount g =
     (case hasRecentlyFailed url g of
        (True, g1) \<Rightarrow> (Inl (SkippedRecentlyFailed url), g1)
      | (False, g1) \<Rightarrow>
          (case xhrSend net url g1 of (response, g2) \<Rightarrow>
             if status response \<ge> 200 \<and> status response < 300
             then (case responseJSON response of
                     Some json \<Rightarrow> (Inr json, g2)
                   | None \<Rightarrow> (Inl ParseFailed, g2))
             else if status response = 429 \<and> retryCount < MAX_RETRIES
             then makeApiRequest net url (retryCount + 1)
                    (sleep (RETRY_DELAY * 2 ^ retryCount) g2)
             else (Inl (ApiError (status response)),
                   recordFailedRequest url (status response)
                     (if status response = 429 then Some 60000 else None) g2)))"
  by pat_completeness auto
termination
  by (relation "measure (\<lambda>(net, url, retryCount, g). MAX_RETRIES - retryCount)") auto

declare makeApiRequest.simps [simp del]

section \<open>Thread grouping engine\<close>

text \<open>
  \<^verbatim>\<open>groupThreads\<close> (api.ts, lines 587-840).

  \<^verbatim>\<open>new Date(s).getTime()\<close> is a parameter \<open>getTime\<close>: a function from the date string to a
  time in milliseconds or to \<^verbatim>\<open>NaN\<close>. It never throws on a string, so the \<^verbatim>\<open>catch\<close> branches
  of the comparators (the comparison of ids as big integers) are never entered and have
  no counterpart here.

  \<^verbatim>\<open>Array.prototype.sort\<close> with a comparator is a stable insertion sort; a comparator
  result of \<^verbatim>\<open>NaN\<close> counts as 0, as ECMAScript says. For a consistent comparator every
  stable sort gives this result. For an inconsistent one (a \<^verbatim>\<open>NaN\<close> among the times)
  ECMAScript leaves the order to the engine and the model is one admissible order.
\<close>

datatype jsnumber = NaN | Num int

text \<open>
  A call with a spread argument, \<^verbatim>\<open>xs.push(...ys)\<close>, passes every element of \<^verbatim>\<open>ys\<close> as an
  argument of its own. An engine accepts only so many arguments in one call and throws a
  \<^verbatim>\<open>RangeError\<close> for a longer array. The bound differs from engine to engine and is a
  parameter, \<open>maxArguments\<close>. \<open>forEachTry\<close> is a loop whose body may throw: the first
  error ends the loop and is the result.
\<close>

definition pushSpread :: "nat \<Rightarrow> 'a list \<Rightarrow> 'a list \<Rightarrow> JsError + 'a list" where
  "pushSpread maxArguments xs ys =
     (if length ys > maxArguments then Inl RangeError else Inr (xs @ ys))"

primrec forEachTry :: "('a \<Rightarrow> 's \<Rightarrow> JsError + 's) \<Rightarrow> 'a list \<Rightarrow> 's \<Rightarrow> JsError + 's" where
  "forEachTry body [] s = Inr s"
| "forEachTry body (x # xs) s =
     (case body x s of Inl e \<Rightarrow> Inl e | Inr s' \<Rightarrow> forEachTry body xs s')"

type_synonym date_parser = "jsstring \<Rightarrow> jsnumber"

definition js_minus :: "jsnumber \<Rightarrow> jsnumber \<Rightarrow> jsnumber" where
  "js_minus a b = (case a of NaN \<Rightarrow> NaN | Num x \<Rightarrow> (case b of NaN \<Rightarrow> NaN | Num y \<Rightarrow> Num (x - y)))"

definition notAfter :: "jsnumber \<Rightarrow> bool" where
  "notAfter v = (case v of NaN \<Rightarrow> True | Num n \<Rightarrow> n \<le> 0)"

primrec insort_cmp :: "('a \<Rightarrow> 'a \<Rightarrow> jsnumber) \<Rightarrow> 'a \<Rightarrow> 'a list \<Rightarrow> 'a list" where
  "insort_cmp cmp x [] = [x]"
| "insort_cmp cmp x (y # ys) =
     (if notAfter (cmp x y) then x # y # ys else y # insort_cmp cmp x ys)"

definition js_sort :: "('a \<Rightarrow> 'a \<Rightarrow> jsnumber) \<Rightarrow> 'a list \<Rightarrow> 'a list" where
  "js_sort cmp xs = foldr (insort_cmp cmp) xs []"

text \<open>
  The posts are objects that \<^verbatim>\<open>groupThreads\<close> changes in place (\<^verbatim>\<open>thread_position\<close>,
  \<^verbatim>\<open>thread_index\<close>) and shares between its maps and arrays. The objects are kept in a
  store, the list \<open>heap\<close>, in the order of the input array; a reference is an index into
  it. A \<^verbatim>\<open>Map\<close> with string keys is an association list in insertion order: \<open>map_set\<close>
  replaces the value of a key in place or appends a new key, as \<^verbatim>\<open>Map.prototype.set\<close> does.
  A \<^verbatim>\<open>Set\<close> is a list without duplicates in insertion order. \<open>pushTo k x\<close> is
  \<^verbatim>\<open>if (!m.has(k)) m.set(k, []); m.get(k)!.push(x)\<close>, and \<open>addTo k x\<close> is the same with a
  \<^verbatim>\<open>Set\<close> and \<^verbatim>\<open>add\<close>. \<open>strOf\<close> reads an optional string that has been tested truthy.
\<close>

type_synonym ref = nat
type_synonym 'v jsmap = "(jsstring \<times> 'v) list"

fun map_set :: "jsstring \<Rightarrow> 'v \<Rightarrow> 'v jsmap \<Rightarrow> 'v jsmap" where
  "map_set k v [] = [(k, v)]"
| "map_set k v ((k', v') # m) = (if k' = k then (k, v) # m else (k', v') # map_set k v m)"

definition map_has :: "jsstring \<Rightarrow> 'v jsmap \<Rightarrow> bool" where
  "map_has k m \<longleftrightarrow> map_of m k \<noteq> None"

definition set_add :: "'a \<Rightarrow> 'a list \<Rightarrow> 'a list" where
  "set_add x xs = (if x \<in> set xs then xs else xs @ [x])"

definition pushTo :: "jsstring \<Rightarrow> 'a \<Rightarrow> 'a list jsmap \<Rightarrow> 'a list jsmap" where
  "pushTo k x m = (case map_of m k of None \<Rightarrow> map_set k [x] m
                   | Some xs \<Rightarrow> map_set k (xs @ [x]) m)"

definition addTo :: "jsstring \<Rightarrow> 'a \<Rightarrow> 'a list jsmap \<Rightarrow> 'a list jsmap" where
  "addTo k x m = (case map_of m k of None \<Rightarrow> map_set k [x] m
                  | Some xs \<Rightarrow> map_set k (set_add x xs) m)"

definition strOf :: "jsstring option \<Rightarrow> jsstring" where
  "strOf v = (case v of None \<Rightarrow> [] | Some s \<Rightarrow> s)"

definition dateCompare :: "date_parser \<Rightarrow> Tweet \<Rightarrow> Tweet \<Rightarrow> jsnumber" where
  "dateCompare getTime a b = js_minus (getTime (created_at a)) (getTime (created_at b))"

definition positionCompare :: "date_parser \<Rightarrow> Tweet \<Rightarrow> Tweet \<Rightarrow> jsnumber" where
  "positionCompare getTime a b =
     (case (thread_position a, thread_position b) of
        (Some pa, Some pb) \<Rightarrow> Num (pa - pb)
      | _ \<Rightarrow> (case (thread_index a, thread_index b) of
                 (Some ia, Some ib) \<Rightarrow> Num (ia - ib)
               | _ \<Rightarrow> dateCompare getTime a b))"

text \<open>
  Lines 594-627: \<^verbatim>\<open>tweetMap\<close> (for a repeated id the last post wins) and the pre-pass that
  collects the id sets of the self-threads.
\<close>

definition buildTweetMap :: "Tweet list \<Rightarrow> ref jsmap" where
  "buildTweetMap tweets = fold (\<lambda>i m. map_set (tweet_id (tweets ! i)) i m) [0..<length tweets] []"

definition selfThreadStep ::
  "ref jsmap \<Rightarrow> Tweet list \<Rightarrow> Tweet \<Rightarrow> jsstring list jsmap \<Rightarrow> jsstring list jsmap" where
  "selfThreadStep tweetMap tweets tweet selfThreads =
     (if is_self_thread tweet \<and> truthy (conversation_id tweet)
      then (let cid = strOf (conversation_id tweet);
                s1 = addTo cid (tweet_id tweet) selfThreads
            in if truthy (in_reply_to_tweet_id tweet) \<and>
                  map_has (strOf (in_reply_to_tweet_id tweet)) tweetMap
               then addTo cid (strOf (in_reply_to_tweet_id tweet)) s1
               else s1)
      else if truthy (in_reply_to_tweet_id tweet) \<and> truthy (in_reply_to_user_id tweet)
      then (case map_of tweetMap (strOf (in_reply_to_tweet_id tweet)) of
              None \<Rightarrow> selfThreads
            | Some replyToTweet \<Rightarrow>
                if author_id (tweets ! replyToTweet) = author_id tweet
                then (let threadId = str_or (conversation_id tweet)
                             (str_or (thread_id tweet) (strOf (in_reply_to_tweet_id tweet)))
                      in addTo threadId (strOf (in_reply_to_tweet_id tweet))
                           (addTo threadId (tweet_id tweet) selfThreads))
                else selfThreads)
      else selfThreads)"

definition collectSelfThreads :: "ref jsmap \<Rightarrow> Tweet list \<Rightarrow> jsstring list jsmap" where
  "collectSelfThreads tweetMap tweets = fold (selfThreadStep tweetMap tweets) tweets []"

text \<open>
  Lines 629-670: every id set with more than one id becomes a thread, sorted by
  position, index or time; its posts get their positions and are marked as processed.
  This pass does not look at \<open>processedIds\<close>.
\<close>

record GroupState =
  heap :: "Tweet list"
  processedIds :: "jsstring list"
  threadMap :: "ref list jsmap"

definition assignPositions :: "ref list \<Rightarrow> Tweet list \<Rightarrow> Tweet list" where
  "assignPositions thread h =
     fold (\<lambda>(idx, r) h. h[r := (h ! r)\<lparr>thread_position := Some (int idx),
                                       thread_index := Some (int idx)\<rparr>])
          (enumerate 0 thread) h"

definition selfThreadGroup ::
  "date_parser \<Rightarrow> ref jsmap \<Rightarrow> jsstring \<times> jsstring list \<Rightarrow> GroupState \<Rightarrow> GroupState" where
  "selfThreadGroup getTime tweetMap entry st =
     (case entry of (threadId, tweetIds) \<Rightarrow>
        if length tweetIds > 1
        then (let threadTweets = js_sort (\<lambda>a b. positionCompare getTime (heap st ! a) (heap st ! b))
                                   (List.map_filter (map_of tweetMap) tweetIds)
              in if length threadTweets > 1
                 then st\<lparr>heap := assignPositions threadTweets (heap st),
                         processedIds := fold (\<lambda>r p. set_add (tweet_id (heap st ! r)) p)
                                              threadTweets (processedIds st),
                         threadMap := map_set threadId threadTweets (threadMap st)\<rparr>
                 else st)
        else st)"

text \<open>
  Lines 672-800, the residual pass. \<open>findReplies\<close> is the recursive walk of lines
  743-766: it returns nothing once the depth exceeds 10, visits the replies to a post in
  order of time, and threads the set of processed ids through the recursion. The list stored under a key of
  \<^verbatim>\<open>replyMap\<close> is sorted in place by the source; the order of the other lists is not
  affected, and the model sorts a copy. \<open>candidateGroup\<close> is the array
  \<^verbatim>\<open>threadMembers\<close> of lines 679-685 and \<open>commitThread\<close> is lines 784-799. In
  \<open>residualStep\<close> the branch for a missing root (lines 770-782) is kept, although a
  group of more than one member always has a first element. The three calls with a
  spread argument (lines 761, 769 and 780) throw when the array is longer than the
  engine allows; nothing in \<^verbatim>\<open>groupThreads\<close> catches that, so the error is the result of
  the whole call.
\<close>

definition standalone :: jsstring where
  "standalone = ascii ''standalone''"

function findReplies ::
  "nat \<Rightarrow> date_parser \<Rightarrow> Tweet list \<Rightarrow> ref list jsmap \<Rightarrow> jsstring \<Rightarrow> nat \<Rightarrow> jsstring list
     \<Rightarrow> JsError + ref list \<times> jsstring list" where
  "findReplies maxArguments getTime h replyMap tweetId depth processed =
     (if depth > 10 then Inr ([], processed)
      else (case map_of replyMap tweetId of
              None \<Rightarrow> Inr ([], processed)
            | Some rs \<Rightarrow>
                fold (\<lambda>reply acc.
                        case acc of
                          Inl e \<Rightarrow> Inl e
                        | Inr (result, processed) \<Rightarrow>
                            if tweet_id (h ! reply) \<notin> set processed
                            then (case findReplies maxArguments getTime h replyMap
                                         (tweet_id (h ! reply)) (depth + 1)
                                         (set_add (tweet_id (h ! reply)) processed) of
                                    Inl e \<Rightarrow> Inl e
                                  | Inr (sub, processed') \<Rightarrow>
                                      (case pushSpread maxArguments (result @ [reply]) sub of
                                         Inl e \<Rightarrow> Inl e
                                       | Inr result' \<Rightarrow> Inr (result', processed')))
                            else Inr (result, processed))
                     (js_sort (\<lambda>a b. dateCompare getTime (h ! a) (h ! b)) rs)
                     (Inr ([], processed))))"
  by pat_completeness auto
termination
  by (relation "measure (\<lambda>(maxArguments, getTime, h, replyMap, tweetId, depth, processed).
                           11 - depth)") auto

declare findReplies.simps [simp del]

definition isThreadMember ::
  "ref jsmap \<Rightarrow> jsstring list \<Rightarrow> Tweet \<Rightarrow> jsstring \<Rightarrow> Tweet \<Rightarrow> bool" where
  "isThreadMember tweetMap processed tweet threadId t \<longleftrightarrow>
     tweet_id t \<notin> set processed \<and>
     ((truthy (conversation_id t) \<and> conversation_id t = Some threadId) \<or>
      (truthy (thread_id t) \<and> thread_id t = Some threadId) \<or>
      (truthy (in_reply_to_tweet_id t) \<and> map_has (strOf (in_reply_to_tweet_id t)) tweetMap \<and>
       author_id t = author_id tweet))"

definition isRoot :: "Tweet list \<Rightarrow> ref list \<Rightarrow> Tweet \<Rightarrow> bool" where
  "isRoot h threadMembers t \<longleftrightarrow>
     \<not> truthy (in_reply_to_tweet_id t) \<or>
     \<not> list_ex (\<lambda>other. tweet_id (h ! other) = strOf (in_reply_to_tweet_id t)) threadMembers"

definition buildReplyMap :: "Tweet list \<Rightarrow> ref list \<Rightarrow> ref list jsmap" where
  "buildReplyMap h threadMembers =
     fold (\<lambda>j m. if truthy (in_reply_to_tweet_id (h ! j))
                  then pushTo (strOf (in_reply_to_tweet_id (h ! j))) j m else m)
          threadMembers []"

definition commitThread :: "jsstring \<Rightarrow> ref list \<Rightarrow> GroupState \<Rightarrow> GroupState" where
  "commitThread threadId thread st =
     (if length thread > 1
      then st\<lparr>heap := assignPositions thread (heap st),
              threadMap := map_set threadId thread (threadMap st)\<rparr>
      else (case thread of
              [r] \<Rightarrow> st\<lparr>threadMap := pushTo standalone r (threadMap st)\<rparr>
            | _ \<Rightarrow> st))"

definition residualThreadId :: "Tweet \<Rightarrow> jsstring" where
  "residualThreadId tweet =
     str_or (conversation_id tweet) (str_or (thread_id tweet) (tweet_id tweet))"

definition candidateGroup :: "ref jsmap \<Rightarrow> GroupState \<Rightarrow> ref \<Rightarrow> ref list" where
  "candidateGroup tweetMap st i =
     filter (\<lambda>j. isThreadMember tweetMap (processedIds st) (heap st ! i)
                   (residualThreadId (heap st ! i)) (heap st ! j))
            [0..<length (heap st)]"

definition residualStep ::
  "nat \<Rightarrow> date_parser \<Rightarrow> ref jsmap \<Rightarrow> ref \<Rightarrow> GroupState \<Rightarrow> JsError + GroupState" where
  "residualStep maxArguments getTime tweetMap i st =
     (let h = heap st; tweet = h ! i in
      if tweet_id tweet \<in> set (processedIds st) then Inr st
      else
        let threadId = residualThreadId tweet;
            threadMembers = candidateGroup tweetMap st i
        in if length threadMembers \<le> 1
           then Inr (st\<lparr>processedIds := set_add (tweet_id tweet) (processedIds st),
                        threadMap := pushTo standalone i (threadMap st)\<rparr>)
           else
             let replyMap = buildReplyMap h threadMembers;
                 byDate = (\<lambda>a b. dateCompare getTime (h ! a) (h ! b));
                 found = find (\<lambda>j. isRoot h threadMembers (h ! j)) threadMembers;
                 members' = (if found = None then js_sort byDate threadMembers else threadMembers);
                 rootTweet = (if found = None
                              then (case members' of [] \<Rightarrow> None | r # _ \<Rightarrow> Some r)
                              else found)
             in (case rootTweet of
                   Some root \<Rightarrow>
                     (case findReplies maxArguments getTime h replyMap (tweet_id (h ! root)) 0
                             (set_add (tweet_id (h ! root)) (processedIds st)) of
                        Inl e \<Rightarrow> Inl e
                      | Inr (replies, processed') \<Rightarrow>
                          (case pushSpread maxArguments [root] replies of
                             Inl e \<Rightarrow> Inl e
                           | Inr thread \<Rightarrow>
                               Inr (commitThread threadId thread (st\<lparr>processedIds := processed'\<rparr>))))
                 | None \<Rightarrow>
                     (let sorted = js_sort byDate members'
                      in case pushSpread maxArguments [] sorted of
                           Inl e \<Rightarrow> Inl e
                         | Inr thread \<Rightarrow>
                             Inr (commitThread threadId thread
                                    (st\<lparr>processedIds := fold (\<lambda>r p. set_add (tweet_id (h ! r)) p)
                                                              sorted (processedIds st)\<rparr>)))))"

definition remainingStep :: "ref \<Rightarrow> GroupState \<Rightarrow> GroupState" where
  "remainingStep i st =
     (let tweet = heap st ! i in
      if tweet_id tweet \<notin> set (processedIds st)
      then st\<lparr>threadMap := pushTo standalone i (threadMap st),
              processedIds := set_add (tweet_id tweet) (processedIds st)\<rparr>
      else st)"

text \<open>
  Lines 802-840: the sweep over the posts still unprocessed, the result array and the
  final sort. \<open>thread_key\<close> is the \<^verbatim>\<open>id\<close> of a thread and \<open>thread_tweets\<close> its \<^verbatim>\<open>tweets\<close>. The
  comparator of the final sort reads \<^verbatim>\<open>a.tweets[0].created_at\<close> with no test of its own
  that the thread has a first post; \<open>itemTime\<close> gives a \<open>TypeError\<close> there, and the sort
  passes it on. Every other property read of \<^verbatim>\<open>groupThreads\<close> has its guard next to it.
  \<open>pushEntry\<close> is the callback of lines 817-830: the list kept under \<^verbatim>\<open>standalone\<close> is
  pushed with a spread argument (line 820), a thread as one object.
\<close>

record Thread =
  thread_key :: jsstring
  thread_tweets :: "Tweet list"
  thread_author_id :: "jsstring option"
  thread_created_at :: jsstring

datatype Item = TweetItem Tweet | ThreadItem Thread

definition pushEntry ::
  "nat \<Rightarrow> Tweet list \<Rightarrow> jsstring \<times> ref list \<Rightarrow> Item list \<Rightarrow> JsError + Item list" where
  "pushEntry maxArguments h entry result =
     (case entry of (key, refs) \<Rightarrow>
        if key = standalone
        then pushSpread maxArguments result (map (\<lambda>r. TweetItem (h ! r)) refs)
        else (case refs of
                r0 # r1 # rest \<Rightarrow>
                  Inr (result @
                    [ThreadItem \<lparr> thread_key = key, thread_tweets = map (\<lambda>r. h ! r) refs,
                       thread_author_id = author_id (h ! r0),
                       thread_created_at = created_at (h ! r0) \<rparr>])
              | _ \<Rightarrow> Inr result))"

definition buildResult :: "nat \<Rightarrow> Tweet list \<Rightarrow> ref list jsmap \<Rightarrow> JsError + Item list" where
  "buildResult maxArguments h tm = forEachTry (pushEntry maxArguments h) tm []"

definition itemTime :: "date_parser \<Rightarrow> Item \<Rightarrow> JsError + jsnumber" where
  "itemTime getTime a =
     (case a of
        ThreadItem th \<Rightarrow> (case thread_tweets th of [] \<Rightarrow> Inl TypeError
                           | t # _ \<Rightarrow> Inr (getTime (created_at t)))
      | TweetItem t \<Rightarrow> Inr (getTime (created_at t)))"

definition newestFirst :: "date_parser \<Rightarrow> Item \<Rightarrow> Item \<Rightarrow> JsError + jsnumber" where
  "newestFirst getTime a b =
     (case itemTime getTime a of
        Inl e \<Rightarrow> Inl e
      | Inr dateA \<Rightarrow> (case itemTime getTime b of
                        Inl e \<Rightarrow> Inl e
                      | Inr dateB \<Rightarrow> Inr (js_minus dateB dateA)))"

primrec insort_try ::
  "('a \<Rightarrow> 'a \<Rightarrow> JsError + jsnumber) \<Rightarrow> 'a \<Rightarrow> 'a list \<Rightarrow> JsError + 'a list" where
  "insort_try cmp x [] = Inr [x]"
| "insort_try cmp x (y # ys) =
     (case cmp x y of
        Inl e \<Rightarrow> Inl e
      | Inr v \<Rightarrow> if notAfter v then Inr (x # y # ys)
                 else (case insort_try cmp x ys of Inl e \<Rightarrow> Inl e | Inr zs \<Rightarrow> Inr (y # zs)))"

primrec js_sort_try :: "('a \<Rightarrow> 'a \<Rightarrow> JsError + jsnumber) \<Rightarrow> 'a list \<Rightarrow> JsError + 'a list" where
  "js_sort_try cmp [] = Inr []"
| "js_sort_try cmp (x # xs) =
     (case js_sort_try cmp xs of Inl e \<Rightarrow> Inl e | Inr ys \<Rightarrow> insort_try cmp x ys)"

definition groupThreads :: "nat \<Rightarrow> date_parser \<Rightarrow> Tweet list \<Rightarrow> JsError + Item list" where
  "groupThreads maxArguments getTime tweets =
     (let tweetMap = buildTweetMap tweets;
          selfThreads = collectSelfThreads tweetMap tweets;
          st0 = \<lparr> heap = tweets, processedIds = [], threadMap = [] \<rparr>;
          st1 = fold (selfThreadGroup getTime tweetMap) selfThreads st0
      in case forEachTry (residualStep maxArguments getTime tweetMap) [0..<length tweets] st1 of
           Inl e \<Rightarrow> Inl e
         | Inr st2 \<Rightarrow>
             (let st3 = fold remainingStep [0..<length tweets] st2
              in case buildResult maxArguments (heap st3) (threadMap st3) of
                   Inl e \<Rightarrow> Inl e
                 | Inr result \<Rightarrow> js_sort_try (newestFirst getTime) result))"

section \<open>Reply-chain fetcher\<close>

text \<open>
  \<^verbatim>\<open>fetchAllReplies\<close> (api.ts, lines 272-393). A parsed response body is \<^verbatim>\<open>null\<close> or an
  object, of which the fields \<^verbatim>\<open>user_id\<close>, \<^verbatim>\<open>results\<close>, \<^verbatim>\<open>replies\<close> and
  \<^verbatim>\<open>continuation_token\<close> are read; \<^verbatim>\<open>results\<close> and \<^verbatim>\<open>replies\<close> are arrays of raw records when
  present. \<^verbatim>\<open>encodeURIComponent\<close> is a parameter that may fail, as the built-in does on a
  lone surrogate.

  \<open>replyPage\<close> is the \<^verbatim>\<open>try\<close> block of one iteration and \<open>fetchRepliesLoop\<close> the
  \<^verbatim>\<open>do ... while\<close> loop with its \<^verbatim>\<open>catch\<close> block. The filter callback adds to
  \<^verbatim>\<open>uniqueReplyIds\<close> while it runs, so the ids added before a callback throws stay added.
  The replies of a page are pushed with a spread argument (line 324), inside the \<^verbatim>\<open>try\<close>
  block: for a page longer than the engine allows the ids stay added and the page is
  not. \<open>finishReplies\<close> is lines 372-389.
\<close>

record ApiData =
  api_user_id :: "jsstring option"
  api_results :: "RawTweet list option"
  api_replies :: "RawTweet list option"
  api_continuation_token :: "jsstring option"

datatype Json = JNull | JObject ApiData

record Env =
  env_network :: "Json network"
  env_getTime :: date_parser
  env_encodeURIComponent :: "jsstring \<Rightarrow> JsError + jsstring"
  env_maxArguments :: nat

definition repliesOf :: "Json \<Rightarrow> RawTweet list option" where
  "repliesOf response = (case response of JNull \<Rightarrow> None | JObject d \<Rightarrow> api_replies d)"

definition tokenOf :: "Json \<Rightarrow> jsstring option" where
  "tokenOf response = (case response of JNull \<Rightarrow> None | JObject d \<Rightarrow> api_continuation_token d)"

definition isAuthor :: "jsstring \<Rightarrow> Tweet \<Rightarrow> JsError + bool" where
  "isAuthor username t =
     (case author_username t of
        None \<Rightarrow> Inl TypeError
      | Some u \<Rightarrow> Inr (toLowerCase u = toLowerCase username))"

definition mentionsOtherUser :: "jsstring \<Rightarrow> Tweet \<Rightarrow> bool" where
  "mentionsOtherUser username t =
     (let tweetText = str_or (full_text t) (tweet_text t)
      in (case tweetText of c # d # rest \<Rightarrow> c = 64 \<and> isWordChar d | _ \<Rightarrow> False) \<and>
         \<not> startsWith tweetText (64 # username))"

definition replyFilter ::
  "jsstring \<Rightarrow> Tweet \<Rightarrow> jsstring list \<Rightarrow> (JsError + bool) \<times> jsstring list" where
  "replyFilter username t unique =
     (case isAuthor username t of
        Inl e \<Rightarrow> (Inl e, unique)
      | Inr author \<Rightarrow>
          if \<not> author then (Inr False, unique)
          else if tweet_id t \<in> set unique then (Inr False, unique)
          else if mentionsOtherUser username t then (Inr False, unique)
          else (Inr True, set_add (tweet_id t) unique))"

fun filterReplies ::
  "jsstring \<Rightarrow> Tweet list \<Rightarrow> jsstring list \<Rightarrow> (JsError + Tweet list) \<times> jsstring list" where
  "filterReplies username [] unique = (Inr [], unique)"
| "filterReplies username (t # ts) unique =
     (case replyFilter username t unique of
        (Inl e, u) \<Rightarrow> (Inl e, u)
      | (Inr keep, u) \<Rightarrow>
          (case filterReplies username ts u of
             (Inl e, u') \<Rightarrow> (Inl e, u')
           | (Inr rest, u') \<Rightarrow> (Inr (if keep then t # rest else rest), u')))"

record ReplyFetch =
  allReplies :: "Tweet list"
  continuationToken :: "jsstring option"
  attempts :: nat
  pageCount :: nat
  uniqueReplyIds :: "jsstring list"

definition replyUrl :: "Env \<Rightarrow> jsstring \<Rightarrow> jsstring option \<Rightarrow> JsError + jsstring" where
  "replyUrl env tweetId token =
     (if truthy token
      then (case env_encodeURIComponent env (strOf token) of
              Inl e \<Rightarrow> Inl e
            | Inr encoded \<Rightarrow>
                Inr (ascii ''https://twitter154.p.rapidapi.com/tweet/replies/continuation?tweet_id=''
                     @ tweetId @ ascii ''&continuation_token='' @ encoded))
      else Inr (ascii ''https://twitter154.p.rapidapi.com/tweet/replies?tweet_id='' @ tweetId))"

definition replyPage ::
  "Env \<Rightarrow> jsstring \<Rightarrow> jsstring \<Rightarrow> ReplyFetch \<Rightarrow> Gateway \<Rightarrow> (JsError + unit) \<times> ReplyFetch \<times> Gateway" where
  "replyPage env tweetId username l g =
     (case replyUrl env tweetId (continuationToken l) of
        Inl e \<Rightarrow> (Inl e, l, g)
      | Inr url \<Rightarrow>
          (case makeApiRequest (env_network env) url 0 g of
             (Inl e, g1) \<Rightarrow> (Inl e, l, g1)
           | (Inr response, g1) \<Rightarrow>
               (case (case repliesOf response of None \<Rightarrow> None
                      | Some replies \<Rightarrow> if replies = [] then None else Some replies) of
                  Some replies \<Rightarrow>
                    (case filterReplies username (map processTweet replies) (uniqueReplyIds l) of
                       (Inl e, u) \<Rightarrow> (Inl e, l\<lparr>uniqueReplyIds := u\<rparr>, g1)
                     | (Inr filteredReplies, u) \<Rightarrow>
                         (let l1 = l\<lparr>uniqueReplyIds := u\<rparr>
                          in if length filteredReplies > 0
                             then (case pushSpread (env_maxArguments env) (allReplies l1)
                                          filteredReplies of
                                     Inl e \<Rightarrow> (Inl e, l1, g1)
                                   | Inr pushed \<Rightarrow>
                                       (Inr (),
                                        l1\<lparr>allReplies := pushed,
                                           continuationToken :=
                                             (if truthy (tokenOf response) then tokenOf response
                                              else continuationToken l1),
                                           pageCount := pageCount l1 + 1, attempts := 0\<rparr>,
                                        sleep 1000 g1))
                             else (Inr (),
                                   l1\<lparr>continuationToken :=
                                        (if length replies \<ge> 10 \<and> truthy (tokenOf response)
                                         then tokenOf response else None),
                                      pageCount := pageCount l1 + 1, attempts := 0\<rparr>,
                                   sleep 1000 g1)))
                | None \<Rightarrow>
                    (Inr (), l\<lparr>continuationToken := None, pageCount := pageCount l + 1,
                                attempts := 0\<rparr>,
                     sleep 1000 g1))))"

function fetchRepliesLoop ::
  "Env \<Rightarrow> nat \<Rightarrow> jsstring \<Rightarrow> jsstring \<Rightarrow> ReplyFetch \<Rightarrow> Gateway \<Rightarrow> ReplyFetch \<times> Gateway" where
  "fetchRepliesLoop env maxPages tweetId username l g =
     (if pageCount l \<ge> maxPages then (l, g)
      else (case replyPage env tweetId username l g of
              (Inr _, l1, g1) \<Rightarrow>
                if truthy (continuationToken l1) \<and> attempts l1 < 3 \<and> pageCount l1 < maxPages
                then fetchRepliesLoop env maxPages tweetId username l1 g1
                else (l1, g1)
            | (Inl e, l1, g1) \<Rightarrow>
                (let l2 = l1\<lparr>attempts := attempts l1 + 1\<rparr>; g2 = sleep 2000 g1
                 in if attempts l2 \<ge> 3 then (l2, g2)
                    else if truthy (continuationToken l2) \<and> attempts l2 < 3 \<and>
                            pageCount l2 < maxPages
                    then fetchRepliesLoop env maxPages tweetId username l2 g2
                    else (l2, g2))))"
  by pat_completeness auto
termination
proof (relation "measure (\<lambda>(env, maxPages, tweetId, username, l, g).
          (maxPages - pageCount l) * 4 + (3 - attempts l))", goal_cases)
  case 1
  show ?case by simp
next
  case 2
  then show ?case
    by (auto simp: replyPage_def Let_def split: sum.splits prod.splits option.splits if_splits)
next
  case 3
  then show ?case
    by (auto simp: replyPage_def Let_def split: sum.splits prod.splits option.splits if_splits)
qed

declare fetchRepliesLoop.simps [simp del]

definition finishReplies :: "date_parser \<Rightarrow> Tweet list \<Rightarrow> Tweet list" where
  "finishReplies getTime replies =
     (if length replies > 1
      then map (\<lambda>(index, tweet). tweet\<lparr>thread_position := Some (int index),
                                         thread_index := Some (int index)\<rparr>)
               (enumerate 0 (js_sort (dateCompare getTime) replies))
      else replies)"

definition fetchAllReplies ::
  "Env \<Rightarrow> nat \<Rightarrow> jsstring \<Rightarrow> jsstring \<Rightarrow> Gateway \<Rightarrow> Tweet list \<times> Gateway" where
  "fetchAllReplies env replyMaxPages tweetId username g =
     (case fetchRepliesLoop env replyMaxPages tweetId username
             \<lparr> allReplies = [], continuationToken = None, attempts = 0, pageCount = 0,
               uniqueReplyIds = [] \<rparr> g of
        (l, g') \<Rightarrow> (finishReplies (env_getTime env) (allReplies l), g'))"

text \<open>The list \<^verbatim>\<open>allReplies\<close> as it is when the loop has ended.\<close>

definition accumulatedReplies :: "Env \<Rightarrow> nat \<Rightarrow> jsstring \<Rightarrow> jsstring \<Rightarrow> Gateway \<Rightarrow> Tweet list" where
  "accumulatedReplies env replyMaxPages tweetId username g =
     allReplies (fst (fetchRepliesLoop env replyMaxPages tweetId username
        \<lparr> allReplies = [], continuationToken = None, attempts = 0, pageCount = 0,
          uniqueReplyIds = [] \<rparr> g))"

section \<open>Timeline fetch orchestrator\<close>

text \<open>
  \<^verbatim>\<open>fetchUserTweets\<close> and \<^verbatim>\<open>processTweets\<close> (api.ts, lines 396-584). The configuration
  values are natural numbers. \<open>fetchUserTweetsBody\<close> is the \<^verbatim>\<open>try\<close> block, with an \<open>Inl\<close>
  result where it throws; \<open>fetchUserTweets\<close> adds the \<^verbatim>\<open>catch\<close> block, which shows a
  notification and returns the empty list. \<^verbatim>\<open>fetchAllReplies\<close> catches every error of its
  own, so the \<^verbatim>\<open>catch\<close> blocks around its two calls (lines 473 and 543) are entered only
  when the push of the new replies with a spread argument throws (lines 468 and 538):
  the ids of the new replies stay in \<^verbatim>\<open>uniqueTweetIds\<close>, the replies are not added, and the
  pause is that of the \<^verbatim>\<open>catch\<close> block, \<open>errorDelay\<close>, 2500 ms in the first loop and 2000 ms
  in the second. The push of a continuation page (line 513) is inside the \<^verbatim>\<open>try\<close> block of
  the \<^verbatim>\<open>while\<close> loop, whose \<^verbatim>\<open>catch\<close> block ends the loop. The filter of a continuation
  page is the filter of a reply page (\<open>filterReplies\<close>): not by the author, already
  seen, or opening with the mention of another user.
\<close>

record TwitterConfig =
  fetchLimit :: nat
  maxTweets :: nat
  threadsToProcess :: nat
  maxContinuations :: nat
  replyMaxPages :: nat

record FetchOptions =
  initialFetch :: "nat option"
  opt_maxTweets :: "nat option"

record ApiState =
  gateway :: Gateway
  userTweets :: "jsstring \<rightharpoonup> Tweet list"
  toasts :: nat

definition num_or :: "nat option \<Rightarrow> nat \<Rightarrow> nat" where
  "num_or a d = (case a of None \<Rightarrow> d | Some n \<Rightarrow> if n \<noteq> 0 then n else d)"

fun decimal :: "nat \<Rightarrow> jsstring" where
  "decimal n = (if n < 10 then [48 + n] else decimal (n div 10) @ [48 + n mod 10])"

declare decimal.simps [simp del]

definition userDetailsUrl :: "jsstring \<Rightarrow> jsstring" where
  "userDetailsUrl username =
     ascii ''https://twitter154.p.rapidapi.com/user/details?username='' @ username"

definition userTweetsUrl :: "jsstring \<Rightarrow> nat \<Rightarrow> jsstring \<Rightarrow> jsstring" where
  "userTweetsUrl username limit userId =
     ascii ''https://twitter154.p.rapidapi.com/user/tweets?username='' @ username @
     ascii ''&limit='' @ decimal limit @ ascii ''&user_id='' @ userId @
     ascii ''&include_replies=false&include_pinned=false&includeFulltext=true''"

definition continuationUrl :: "jsstring \<Rightarrow> jsstring \<Rightarrow> jsstring \<Rightarrow> jsstring" where
  "continuationUrl username token userId =
     ascii ''https://twitter154.p.rapidapi.com/user/tweets/continuation?username='' @ username @
     ascii ''&continuation_token='' @ token @ ascii ''&user_id='' @ userId"

definition processTweets :: "Json \<Rightarrow> JsError + Tweet list" where
  "processTweets response =
     (case response of
        JNull \<Rightarrow> Inl TypeError
      | JObject d \<Rightarrow> (case api_results d of None \<Rightarrow> Inr [] | Some rs \<Rightarrow> Inr (map processTweet rs)))"

fun filterByAuthor :: "jsstring \<Rightarrow> Tweet list \<Rightarrow> JsError + Tweet list" where
  "filterByAuthor username [] = Inr []"
| "filterByAuthor username (t # ts) =
     (case isAuthor username t of
        Inl e \<Rightarrow> Inl e
      | Inr author \<Rightarrow>
          (case filterByAuthor username ts of
             Inl e \<Rightarrow> Inl e
           | Inr rest \<Rightarrow> Inr (if author \<and> \<not> mentionsOtherUser username t then t # rest else rest)))"

record TimelineFetch =
  allTweets :: "Tweet list"
  uniqueTweetIds :: "jsstring list"

definition newRepliesOf :: "Tweet list \<Rightarrow> jsstring list \<Rightarrow> Tweet list \<times> jsstring list" where
  "newRepliesOf replies unique =
     fold (\<lambda>reply (newReplies, u).
             if tweet_id reply \<in> set u then (newReplies, u)
             else (newReplies @ [reply], set_add (tweet_id reply) u))
          replies ([], unique)"

fun enrichThreads ::
  "Env \<Rightarrow> TwitterConfig \<Rightarrow> int \<Rightarrow> jsstring \<Rightarrow> Tweet list \<Rightarrow> TimelineFetch \<Rightarrow> Gateway
     \<Rightarrow> TimelineFetch \<times> Gateway" where
  "enrichThreads env cfg errorDelay username [] f g = (f, g)"
| "enrichThreads env cfg errorDelay username (tweet # rest) f g =
     (case fetchAllReplies env (replyMaxPages cfg) (tweet_id tweet) username g of
        (replies, g1) \<Rightarrow>
          (case newRepliesOf replies (uniqueTweetIds f) of
             (newReplies, u) \<Rightarrow>
               (let f1 = f\<lparr>uniqueTweetIds := u\<rparr>
                in if length newReplies > 0
                   then (case pushSpread (env_maxArguments env) (allTweets f1) newReplies of
                           Inl e \<Rightarrow>
                             enrichThreads env cfg errorDelay username rest f1 (sleep errorDelay g1)
                         | Inr pushed \<Rightarrow>
                             enrichThreads env cfg errorDelay username rest
                               (f1\<lparr>allTweets := pushed\<rparr>) (sleep 1000 g1))
                   else enrichThreads env cfg errorDelay username rest f1 (sleep 1000 g1))))"

definition byReplyCount :: "Tweet \<Rightarrow> Tweet \<Rightarrow> jsnumber" where
  "byReplyCount a b = Num (int (reply_count b) - int (reply_count a))"

definition continuationPage ::
  "Env \<Rightarrow> TwitterConfig \<Rightarrow> jsstring \<Rightarrow> jsstring \<Rightarrow>
   TimelineFetch \<times> jsstring option \<times> nat \<Rightarrow> Gateway \<Rightarrow>
   (JsError + unit) \<times> (TimelineFetch \<times> jsstring option \<times> nat) \<times> Gateway" where
  "continuationPage env cfg username userId st g =
     (case st of (f, token, count) \<Rightarrow>
        (case makeApiRequest (env_network env)
                (continuationUrl username (strOf token) userId) 0 g of
           (Inl e, g1) \<Rightarrow> (Inl e, st, g1)
         | (Inr continuationData, g1) \<Rightarrow>
             (case processTweets continuationData of
                Inl e \<Rightarrow> (Inl e, st, g1)
              | Inr processed \<Rightarrow>
                  (case filterReplies username processed (uniqueTweetIds f) of
                     (Inl e, u) \<Rightarrow> (Inl e, (f\<lparr>uniqueTweetIds := u\<rparr>, token, count), g1)
                   | (Inr additionalTweets, u) \<Rightarrow>
                       (let f1 = f\<lparr>uniqueTweetIds := u\<rparr>
                        in if length additionalTweets > 0
                           then (case pushSpread (env_maxArguments env) (allTweets f1)
                                        additionalTweets of
                                   Inl e \<Rightarrow> (Inl e, (f1, token, count), g1)
                                 | Inr pushed \<Rightarrow>
                                     (case enrichThreads env cfg 2000 username
                                             (take 5 (js_sort byReplyCount
                                                (filter (\<lambda>t. reply_count t > 2) additionalTweets)))
                                             (f1\<lparr>allTweets := pushed\<rparr>) g1 of
                                        (f2, g2) \<Rightarrow>
                                          (Inr (), (f2, tokenOf continuationData, count + 1),
                                           sleep 1500 g2)))
                           else (Inr (), (f1, tokenOf continuationData, count + 1),
                                 sleep 1500 g1))))))"

function continuationLoop ::
  "Env \<Rightarrow> TwitterConfig \<Rightarrow> jsstring \<Rightarrow> jsstring \<Rightarrow> nat \<Rightarrow>
   TimelineFetch \<times> jsstring option \<times> nat \<Rightarrow> Gateway \<Rightarrow> TimelineFetch \<times> Gateway" where
  "continuationLoop env cfg username userId maxT st g =
     (case st of (f, token, count) \<Rightarrow>
        if truthy token \<and> length (allTweets f) < maxT \<and>
           count < maxContinuations cfg
        then (case continuationPage env cfg username userId st g of
                (Inr _, st1, g1) \<Rightarrow> continuationLoop env cfg username userId maxT st1 g1
              | (Inl e, (f1, _), g1) \<Rightarrow> (f1, g1))
        else (f, g))"
  by pat_completeness auto
termination
proof (relation "measure (\<lambda>(env, cfg, username, userId, maxT, (f, token, count), g).
          maxContinuations cfg - count)", goal_cases)
  case 1
  show ?case by simp
next
  case 2
  then show ?case
    by (auto simp: continuationPage_def Let_def split: sum.splits prod.splits if_splits)
qed

declare continuationLoop.simps [simp del]

definition fetchUserTweetsBody ::
  "Env \<Rightarrow> TwitterConfig \<Rightarrow> jsstring \<Rightarrow> FetchOptions option \<Rightarrow> ApiState
     \<Rightarrow> (JsError + Tweet list) \<times> ApiState" where
  "fetchUserTweetsBody env cfg username options s =
     (let initialFetchLimit = num_or (case options of None \<Rightarrow> None | Some opts \<Rightarrow> initialFetch opts)
                                (fetchLimit cfg);
          maxT = num_or (case options of None \<Rightarrow> None | Some opts \<Rightarrow> opt_maxTweets opts)
                   (maxTweets cfg);
          cacheKey = toLowerCase username
      in case userTweets s cacheKey of
           Some cached \<Rightarrow> (Inr cached, s)
         | None \<Rightarrow>
             (case makeApiRequest (env_network env) (userDetailsUrl username) 0 (gateway s) of
                (Inl e, g1) \<Rightarrow> (Inl e, s\<lparr>gateway := g1\<rparr>)
              | (Inr JNull, g1) \<Rightarrow> (Inl TypeError, s\<lparr>gateway := g1\<rparr>)
              | (Inr (JObject userData), g1) \<Rightarrow>
                  if \<not> truthy (api_user_id userData)
                  then (Inl (UserIdNotFound username), s\<lparr>gateway := g1\<rparr>)
                  else
                    (let userId = strOf (api_user_id userData)
                     in case makeApiRequest (env_network env)
                               (userTweetsUrl username initialFetchLimit userId) 0 g1 of
                          (Inl e, g2) \<Rightarrow> (Inl e, s\<lparr>gateway := g2\<rparr>)
                        | (Inr initialData, g2) \<Rightarrow>
                            (case processTweets initialData of
                               Inl e \<Rightarrow> (Inl e, s\<lparr>gateway := g2\<rparr>)
                             | Inr processed \<Rightarrow>
                                 (case filterByAuthor username processed of
                                    Inl e \<Rightarrow> (Inl e, s\<lparr>gateway := g2\<rparr>)
                                  | Inr initialTweets \<Rightarrow>
                                      (let f0 = \<lparr> allTweets = initialTweets,
                                                   uniqueTweetIds = fold (\<lambda>t u. set_add (tweet_id t) u)
                                                                         initialTweets [] \<rparr>;
                                           selected = take (threadsToProcess cfg)
                                                        (js_sort byReplyCount
                                                           (filter (\<lambda>t. reply_count t > 0) initialTweets));
                                           (f1, g3) = enrichThreads env cfg 2500 username selected f0 g2;
                                           (f2, g4) = continuationLoop env cfg username userId maxT
                                                        (f1, tokenOf initialData, 0) g3
                                       in (Inr (allTweets f2),
                                           s\<lparr>gateway := g4,
                                             userTweets := (userTweets s)(cacheKey \<mapsto> allTweets f2)\<rparr>)))))))"

definition fetchUserTweets ::
  "Env \<Rightarrow> TwitterConfig \<Rightarrow> jsstring \<Rightarrow> FetchOptions option \<Rightarrow> ApiState
     \<Rightarrow> (JsError + Tweet list) \<times> ApiState" where
  "fetchUserTweets env cfg username options s =
     (case fetchUserTweetsBody env cfg username options s of
        (Inr tweets, s') \<Rightarrow> (Inr tweets, s')
      | (Inl error, s') \<Rightarrow> (Inr [], s'\<lparr>toasts := toasts s' + 1\<rparr>))"

section \<open>Example inputs\<close>

text \<open>
  Inputs for the concrete instances below, and a few readings of results.
  \<open>isDevanagariUnit\<close> is the Devanagari block U+0900..U+097F. \<open>textOnly s\<close> is a raw record
  that carries \<open>s\<close> in its \<^verbatim>\<open>text\<close> field and nothing else. \<open>gatewayAt m t\<close> is a gateway with
  failure cache \<open>m\<close> at time \<open>t\<close>; \<open>always code\<close> is a server that answers every request
  with status \<open>code\<close>. \<open>isoDay\<close> parses four dates as \<^verbatim>\<open>Date\<close> does (midnight UTC) and nothing
  else. \<open>rawPost\<close> is a raw record of user \<^verbatim>\<open>u1\<close> (handle \<^verbatim>\<open>alice\<close>) with an id, a day, and
  optionally a conversation id, a reply target and the id of the user replied to;
  \<open>post\<close> is a canonical post of the same user. \<open>itemIds\<close> lists the post ids of an
  output item, \<open>timeValue\<close> is the parsed time of a post, and a post is \<open>unplaced\<close> when
  it has no position. \<open>repliesServer rs\<close> answers every request with the replies \<open>rs\<close> and
  no cursor, \<open>notFoundServer\<close> answers 404; \<open>envWith\<close> adds \<open>isoDay\<close>, an encoder that
  changes nothing and an engine that accepts 65535 arguments in a call; \<open>defaultConfig\<close>
  holds the defaults of \<^verbatim>\<open>TwitterConfig\<close>.
  \<open>demoServer\<close> answers the three endpoints: a user id, a timeline of posts 1 and 9, and
  the replies 3 and 2.
\<close>

definition isDevanagariUnit :: "nat \<Rightarrow> bool" where
  "isDevanagariUnit c \<longleftrightarrow> 2304 \<le> c \<and> c \<le> 2431"

definition textOnly :: "jsstring \<Rightarrow> RawTweet" where
  "textOnly s = \<lparr> raw_tweet_id = ascii ''1'', raw_text = Some s, raw_extended_text = None,
     raw_extended_tweet_full_text = None, raw_full_text = None,
     raw_creation_date = ascii ''2024-01-01'', raw_user_id = None, raw_username = None,
     raw_reply_count = None, raw_conversation_id = None, raw_in_reply_to_status_id = None,
     raw_in_reply_to_tweet_id = None, raw_in_reply_to_user_id = None, raw_thread_id = None \<rparr>"

definition gatewayAt :: "(jsstring \<rightharpoonup> FailedRequest) \<Rightarrow> int \<Rightarrow> Gateway" where
  "gatewayAt m t = \<lparr> failedRequests = m, clock = t, lastApiCallTime = 0, sentRequests = [] \<rparr>"

definition rateLimited429 :: FailedRequest where
  "rateLimited429 = \<lparr> timestamp = 0, errorCode = 429, retryAfter = Some 60000 \<rparr>"

definition serverError500 :: FailedRequest where
  "serverError500 = \<lparr> timestamp = 0, errorCode = 500, retryAfter = None \<rparr>"

definition always :: "int \<Rightarrow> unit network" where
  "always code = (\<lambda>n url. \<lparr> status = code, responseJSON = Some (), latency = 0 \<rparr>)"

definition isoDay :: date_parser where
  "isoDay s =
     (if s = ascii ''2024-01-01'' then Num 1704067200000
      else if s = ascii ''2024-01-02'' then Num 1704153600000
      else if s = ascii ''2024-01-03'' then Num 1704240000000
      else if s = ascii ''2024-01-04'' then Num 1704326400000
      else NaN)"

definition rawPost :: "string \<Rightarrow> string \<Rightarrow> string \<Rightarrow> string \<Rightarrow> string \<Rightarrow> RawTweet" where
  "rawPost i day conv replyTo replyUser =
     \<lparr> raw_tweet_id = ascii i, raw_text = Some (ascii ''post''), raw_extended_text = None,
       raw_extended_tweet_full_text = None, raw_full_text = None,
       raw_creation_date = ascii day, raw_user_id = Some (ascii ''u1''),
       raw_username = Some (ascii ''alice''), raw_reply_count = None,
       raw_conversation_id = (if conv = [] then None else Some (ascii conv)),
       raw_in_reply_to_status_id = (if replyTo = [] then None else Some (ascii replyTo)),
       raw_in_reply_to_tweet_id = None,
       raw_in_reply_to_user_id = (if replyUser = [] then None else Some (ascii replyUser)),
       raw_thread_id = None \<rparr>"

definition chain3 :: "Tweet list" where
  "chain3 = map processTweet
     [rawPost ''1'' ''2024-01-01'' [] [] [],
      rawPost ''2'' ''2024-01-02'' [] ''1'' ''u1'',
      rawPost ''3'' ''2024-01-03'' [] ''2'' ''u1'']"

definition twoPairs :: "Tweet list" where
  "twoPairs = map processTweet
     [rawPost ''1'' ''2024-01-01'' ''c'' [] [],
      rawPost ''2'' ''2024-01-02'' ''c'' ''1'' [],
      rawPost ''3'' ''2024-01-03'' ''c'' [] [],
      rawPost ''4'' ''2024-01-04'' ''c'' ''3'' []]"

definition itemIds :: "Item \<Rightarrow> jsstring list" where
  "itemIds a = (case a of TweetItem t \<Rightarrow> [tweet_id t] | ThreadItem th \<Rightarrow> map tweet_id (thread_tweets th))"

definition resultIds :: "JsError + Item list \<Rightarrow> JsError + jsstring list list" where
  "resultIds r = (case r of Inl e \<Rightarrow> Inl e | Inr items \<Rightarrow> Inr (map itemIds items))"

definition post :: "string \<Rightarrow> string \<Rightarrow> string \<Rightarrow> string \<Rightarrow> bool \<Rightarrow> int option \<Rightarrow> Tweet" where
  "post i day conv replyTo self pos =
  \<lparr>tweet_id = ascii i, tweet_text = ascii ''post'', full_text = Some (ascii ''post''),
   created_at = ascii day, author_id = Some (ascii ''u1''),
   author_username = Some (ascii ''alice''), reply_count = 0,
   conversation_id = Some (ascii conv),
   in_reply_to_user_id = (if self then Some (ascii ''u1'') else None),
   in_reply_to_tweet_id = (if replyTo = [] then None else Some (ascii replyTo)), is_long = False,
   thread_id = Some (ascii conv),
   is_self_thread = self, thread_position = pos, thread_index = pos\<rparr>"

definition pair34 :: Thread where
  "pair34 = \<lparr> thread_key = ascii ''c'',
      thread_tweets = [post ''3'' ''2024-01-03'' ''c'' [] False (Some 0),
                       post ''4'' ''2024-01-04'' ''c'' ''3'' False (Some 1)],
      thread_author_id = Some (ascii ''u1''), thread_created_at = ascii ''2024-01-03'' \<rparr>"

definition timeValue :: "date_parser \<Rightarrow> Tweet \<Rightarrow> int" where
  "timeValue getTime t = (case getTime (created_at t) of NaN \<Rightarrow> 0 | Num n \<Rightarrow> n)"

definition unplaced :: "Tweet \<Rightarrow> bool" where
  "unplaced t \<longleftrightarrow> thread_position t = None \<and> thread_index t = None"

definition repliesServer :: "RawTweet list \<Rightarrow> Json network" where
  "repliesServer rs = (\<lambda>n url. \<lparr> status = 200,
      responseJSON = Some (JObject \<lparr> api_user_id = None, api_results = None,
         api_replies = Some rs, api_continuation_token = None \<rparr>),
      latency = 0 \<rparr>)"

definition envWith :: "Json network \<Rightarrow> Env" where
  "envWith net = \<lparr> env_network = net, env_getTime = isoDay, env_encodeURIComponent = Inr,
                   env_maxArguments = 65535 \<rparr>"

definition defaultConfig :: TwitterConfig where
  "defaultConfig = \<lparr> fetchLimit = 50, maxTweets = 200, threadsToProcess = 10,
      maxContinuations = 3, replyMaxPages = 4 \<rparr>"

definition freshState :: ApiState where
  "freshState = \<lparr> gateway = gatewayAt Map.empty 0, userTweets = Map.empty, toasts = 0 \<rparr>"

definition ok :: "ApiData \<Rightarrow> Json Response" where
  "ok d = \<lparr> status = 200, responseJSON = Some (JObject d), latency = 120 \<rparr>"

definition emptyData :: ApiData where
  "emptyData = \<lparr> api_user_id = None, api_results = None, api_replies = None,
                  api_continuation_token = None \<rparr>"

definition demoServer :: "Json network" where
  "demoServer = (\<lambda>n url.
     if startsWith url (ascii ''https://twitter154.p.rapidapi.com/user/details'')
     then ok (emptyData\<lparr>api_user_id := Some (ascii ''u1'')\<rparr>)
     else if startsWith url (ascii ''https://twitter154.p.rapidapi.com/user/tweets?'')
     then ok (emptyData\<lparr>api_results := Some [(rawPost ''1'' ''2024-01-01'' [] [] [])\<lparr>raw_reply_count := Some 2\<rparr>,
                                                 rawPost ''9'' ''2024-01-04'' [] [] []]\<rparr>)
     else if startsWith url (ascii ''https://twitter154.p.rapidapi.com/tweet/replies?'')
     then ok (emptyData\<lparr>api_replies := Some [rawPost ''3'' ''2024-01-03'' [] ''2'' ''u1'',
                                                 rawPost ''2'' ''2024-01-02'' [] ''1'' ''u1'']\<rparr>)
     else \<lparr> status = 404, responseJSON = None, latency = 50 \<rparr>)"

definition notFoundServer :: "Json network" where
  "notFoundServer = (\<lambda>n url. \<lparr> status = 404, responseJSON = None, latency = 50 \<rparr>)"

text \<open>
  \<open>strayAndPair\<close> is a post of another user in a conversation of its own, followed by
  two posts of user \<^verbatim>\<open>u1\<close> whose conversation id is the word \<^verbatim>\<open>standalone\<close>, the second a reply
  to the first. \<open>lonePosts n\<close> is what the normalizer makes of \<open>n\<close> raw records with the ids
  0, 1, ... in decimal, no reply target and no conversation id: every post is alone in its
  conversation. \<open>digitsValue\<close> reads a decimal id back, and \<open>loneState n k\<close> is the state of
  \<^verbatim>\<open>groupThreads\<close> on \<open>lonePosts n\<close> when the residual pass has visited the first \<open>k\<close> posts.
\<close>

definition strayAndPair :: "Tweet list" where
  "strayAndPair = map processTweet
     [(rawPost ''1'' ''2024-01-01'' ''x'' [] [])
        \<lparr>raw_user_id := Some (ascii ''u2''), raw_username := Some (ascii ''bob'')\<rparr>,
      rawPost ''2'' ''2024-01-02'' ''standalone'' [] [],
      rawPost ''3'' ''2024-01-03'' ''standalone'' ''2'' []]"

definition lonePost :: "nat \<Rightarrow> RawTweet" where
  "lonePost i =
     \<lparr> raw_tweet_id = decimal i, raw_text = Some (ascii ''post''), raw_extended_text = None,
       raw_extended_tweet_full_text = None, raw_full_text = None,
       raw_creation_date = ascii ''2024-01-01'', raw_user_id = Some (ascii ''u1''),
       raw_username = Some (ascii ''alice''), raw_reply_count = None,
       raw_conversation_id = None, raw_in_reply_to_status_id = None,
       raw_in_reply_to_tweet_id = None, raw_in_reply_to_user_id = None,
       raw_thread_id = None \<rparr>"

definition lonePosts :: "nat \<Rightarrow> Tweet list" where
  "lonePosts n = map (\<lambda>i. processTweet (lonePost i)) [0..<n]"

definition digitsValue :: "jsstring \<Rightarrow> nat" where
  "digitsValue s = foldl (\<lambda>a c. 10 * a + (c - 48)) 0 s"

definition loneState :: "nat \<Rightarrow> nat \<Rightarrow> GroupState" where
  "loneState n k =
     \<lparr> heap = lonePosts n, processedIds = map decimal [0..<k],
       threadMap = (if k = 0 then [] else [(standalone, [0..<k])]) \<rparr>"

section \<open>Properties of the text normalizer\<close>

lemma trim_eq_Nil_iff: "trim s = [] \<longleftrightarrow> (\<forall>c\<in>set s. isWhiteSpace c)"
proof (cases "dropWhile isWhiteSpace s = []")
  case True
  then have "\<forall>c\<in>set s. isWhiteSpace c" by (simp add: dropWhile_eq_Nil_conv)
  moreover have "trim s = []" by (simp add: trim_def True)
  ultimately show ?thesis by simp
next
  case False
  then have "hd (dropWhile isWhiteSpace s) \<in> set (dropWhile isWhiteSpace s)"
    and "\<not> isWhiteSpace (hd (dropWhile isWhiteSpace s))"
    by (simp_all add: hd_dropWhile)
  then have "trim s \<noteq> []"
    unfolding trim_def by (metis dropWhile_eq_Nil_conv rev_is_Nil_conv set_rev)
  moreover have "\<not> (\<forall>c\<in>set s. isWhiteSpace c)"
    using False by (simp add: dropWhile_eq_Nil_conv)
  ultimately show ?thesis by simp
qed

lemma splitWhiteSpace_no_ws:
  "\<forall>c\<in>set w. \<not> isWhiteSpace c \<Longrightarrow> splitWhiteSpace cur w = [cur @ w]"
  by (induction w arbitrary: cur) auto

lemma splitWhiteSpace_not_Nil: "splitWhiteSpace cur s \<noteq> []"
  by (induction cur s rule: splitWhiteSpace.induct) auto

lemma dropWhile_append_keep:
  "w \<noteq> [] \<Longrightarrow> \<not> P (hd w) \<Longrightarrow> dropWhile P (q @ w) = dropWhile P q @ w"
  by (induction q) (auto simp: neq_Nil_conv)

lemma last_dropWhile:
  "dropWhile P q \<noteq> [] \<Longrightarrow> last (dropWhile P q) = last q"
  by (induction q) (auto split: if_splits)

lemma splitWhiteSpace_last_token:
  assumes "w \<noteq> []" "\<forall>c\<in>set w. \<not> isWhiteSpace c" "q \<noteq> []" "isWhiteSpace (last q)"
  shows "last (splitWhiteSpace cur (q @ w)) = w"
  using assms(3,4)
proof (induction "length q" arbitrary: q cur rule: less_induct)
  case less
  from less.prems obtain c cs where q: "q = c # cs" by (cases q) auto
  have hdw: "\<not> isWhiteSpace (hd w)" using assms(1,2) by (cases w) auto
  show ?case
  proof (cases "isWhiteSpace c")
    case True
    let ?r = "dropWhile isWhiteSpace cs"
    have dw: "dropWhile isWhiteSpace (cs @ w) = ?r @ w"
      using assms(1) hdw by (rule dropWhile_append_keep)
    show ?thesis
    proof (cases "?r = []")
      case True
      with \<open>isWhiteSpace c\<close> q dw show ?thesis
        by (simp add: splitWhiteSpace_no_ws assms(2) splitWhiteSpace_not_Nil)
    next
      case False
      then have "cs \<noteq> []" by auto
      then have "last ?r = last q" using False q by (simp add: last_dropWhile)
      moreover have "length ?r < length q" using q
        by (simp add: less_Suc_eq_le length_dropWhile_le)
      ultimately have "last (splitWhiteSpace [] (?r @ w)) = w"
        using less.hyps[of ?r "[]"] False less.prems(2) by simp
      with \<open>isWhiteSpace c\<close> q dw show ?thesis
        by (simp add: splitWhiteSpace_not_Nil)
    qed
  next
    case False
    with q less.prems have cs: "cs \<noteq> []" by auto
    then have "last cs = last q" using q by simp
    then have "last (splitWhiteSpace (cur @ [c]) (cs @ w)) = w"
      using less.hyps[of cs "cur @ [c]"] cs q less.prems(2) by simp
    with False q show ?thesis by simp
  qed
qed

lemma splitWhiteSpace_last_unit:
  "s \<noteq> [] \<Longrightarrow> \<not> isWhiteSpace (last s) \<Longrightarrow>
   last (splitWhiteSpace cur s) \<noteq> [] \<and> last (last (splitWhiteSpace cur s)) = last s"
proof (induction cur s rule: splitWhiteSpace.induct)
  case (1 cur)
  then show ?case by simp
next
  case (2 cur c cs)
  show ?case
  proof (cases "isWhiteSpace c")
    case True
    with "2.prems" have cs: "cs \<noteq> []" by auto
    have "dropWhile isWhiteSpace cs \<noteq> []"
      using cs "2.prems" by (auto simp: dropWhile_eq_Nil_conv)
    then show ?thesis
      using True "2.IH"(1) "2.prems" cs
      by (simp add: splitWhiteSpace_not_Nil last_dropWhile)
  next
    case False
    show ?thesis
    proof (cases "cs = []")
      case True
      with False show ?thesis by simp
    next
      case cs: False
      then show ?thesis using False "2.IH"(2) "2.prems" by simp
    qed
  qed
qed

lemma slice_last2_last: "xs \<noteq> [] \<Longrightarrow> slice_last2 xs \<noteq> [] \<and> last (slice_last2 xs) = last xs"
  by (cases xs rule: rev_cases) (auto simp: slice_last2_def)

lemma trim_last_token:
  assumes "w \<noteq> []" "\<forall>c\<in>set w. \<not> isWhiteSpace c" "\<forall>c\<in>set t. isWhiteSpace c"
  shows "trim (p @ w @ t) = dropWhile isWhiteSpace p @ w"
proof -
  have hdw: "\<not> isWhiteSpace (hd w)" and lastw: "\<not> isWhiteSpace (last w)"
    using assms(1,2) by auto
  have 1: "dropWhile isWhiteSpace (p @ w @ t) = dropWhile isWhiteSpace p @ w @ t"
    using dropWhile_append_keep[of "w @ t" isWhiteSpace p] assms(1) hdw by simp
  have 2: "dropWhile isWhiteSpace (rev t @ rev w @ rev (dropWhile isWhiteSpace p))
           = rev w @ rev (dropWhile isWhiteSpace p)"
  proof -
    have "dropWhile isWhiteSpace (rev t @ rev w @ rev (dropWhile isWhiteSpace p))
          = dropWhile isWhiteSpace (rev w @ rev (dropWhile isWhiteSpace p))"
      using assms(3) by (intro dropWhile_append2) simp
    also have "\<dots> = rev w @ rev (dropWhile isWhiteSpace p)"
      using assms(1) lastw by (cases "rev w") (auto simp: hd_rev dest: arg_cong[where f=hd])
    finally show ?thesis .
  qed
  show ?thesis by (simp add: trim_def 1 2)
qed

lemma trim_keeps_last:
  assumes "s \<noteq> []" "\<not> isWhiteSpace (last s)"
  shows "trim s \<noteq> [] \<and> last (trim s) = last s"
proof -
  have "trim (butlast s @ [last s] @ []) = dropWhile isWhiteSpace (butlast s) @ [last s]"
    by (rule trim_last_token) (use assms in auto)
  then show ?thesis using assms by simp
qed

lemma endsWith_last: "endsWith s p \<Longrightarrow> p \<noteq> [] \<Longrightarrow> s \<noteq> [] \<and> last s = last p"
proof -
  assume a: "endsWith s p" "p \<noteq> []"
  then have "s = take (length s - length p) s @ p"
    unfolding endsWith_def by (metis append_take_drop_id)
  then show ?thesis using a(2) by (metis Nil_is_append_conv last_appendR)
qed

lemma startsWith_set: "startsWith s p \<Longrightarrow> set p \<subseteq> set s"
  unfolding startsWith_def by (metis set_take_subset)

lemma includes_js_set: "includes_js s p \<Longrightarrow> set p \<subseteq> set s"
proof (induction s)
  case Nil
  then show ?case by simp
next
  case (Cons c cs)
  from Cons.prems have "startsWith (c # cs) p \<or> includes_js cs p" by simp
  then show ?case
  proof
    assume "startsWith (c # cs) p"
    then show ?thesis by (rule startsWith_set)
  next
    assume "includes_js cs p"
    then have "set p \<subseteq> set cs" by (rule Cons.IH)
    then show ?thesis by auto
  qed
qed

lemma toLowerCase_ender_last:
  "w \<noteq> [] \<Longrightarrow> isTerminalUnit (last w) \<Longrightarrow> toLowerCase w \<notin> set commonTruncationEnders"
proof
  assume w: "w \<noteq> []" "isTerminalUnit (last w)" and m: "toLowerCase w \<in> set commonTruncationEnders"
  have "last (toLowerCase w) = last w"
    using w by (auto simp: toLowerCase_def last_map lowerUnit_def isTerminalUnit_def)
  moreover have "\<forall>e\<in>set commonTruncationEnders. \<not> isTerminalUnit (last e)"
    by (simp add: commonTruncationEnders_def ascii_def isTerminalUnit_def)
  ultimately show False using m w(2) by auto
qed

lemma detect_long_latin:
  assumes "length t = 250" "\<not> hasNonLatinScript t" "\<not> (\<forall>c\<in>set t. isWhiteSpace c)"
    "\<not> endsInTerminal (trim t)"
  shows "detectTruncatedText t"
  using assms by (auto simp: detectTruncatedText_def trim_eq_Nil_iff)

lemma devanagari_not_ws: "isDevanagariUnit c \<Longrightarrow> \<not> isWhiteSpace c \<and> isNonLatinUnit c"
  by (auto simp: isDevanagariUnit_def isWhiteSpace_def isNonLatinUnit_def)

lemma detect_long_devanagari:
  assumes "length d = 190" "list_ex isDevanagariUnit d" "\<not> endsInTerminal (trim d)"
  shows "detectTruncatedText d"
proof -
  from assms(2) obtain c where c: "c \<in> set d" "isDevanagariUnit c" by (auto simp: list_ex_iff)
  then have "trim d \<noteq> []" "hasNonLatinScript d"
    using devanagari_not_ws by (auto simp: trim_eq_Nil_iff hasNonLatinScript_def list_ex_iff)
  then show ?thesis using assms(1,3) c(1)
    by (auto simp: detectTruncatedText_def)
qed

lemma detect_terminal:
  assumes "endsInTerminal e" "\<not> endsWith e (ascii ''...'')"
    "\<not> includes_js e (ellipsis @ ascii '' https://'')"
    "\<not> includes_js e (ascii ''... https://'')"
  shows "\<not> detectTruncatedText e"
proof -
  from assms(1) have ne: "e \<noteq> []" and lt: "isTerminalUnit (last e)"
    by (auto simp: endsInTerminal_def)
  then have nws: "\<not> isWhiteSpace (last e)"
    by (auto simp: isTerminalUnit_def isWhiteSpace_def)
  have tr: "trim e \<noteq> []" "last (trim e) = last e"
    using trim_keeps_last[OF ne nws] by auto
  then have nws': "\<not> isWhiteSpace (last (trim e))" using nws by simp
  have sp: "last (split_ws (trim e)) \<noteq> []" "last (last (split_ws (trim e))) = last e"
    using splitWhiteSpace_last_unit[OF tr(1) nws', of "[]"] tr(2) by (auto simp: split_ws_def)
  have lw: "last (lastWords e) = last (split_ws (trim e))"
    using slice_last2_last[of "split_ws (trim e)"]
    by (simp add: lastWords_def split_ws_def splitWhiteSpace_not_Nil)
  have "toLowerCase (last (lastWords e)) \<notin> set commonTruncationEnders"
    using toLowerCase_ender_last[of "last (split_ws (trim e))"] sp lt lw by simp
  moreover have "\<not> endsWith e ellipsis"
    using endsWith_last[of e ellipsis] lt by (auto simp: ellipsis_def isTerminalUnit_def)
  moreover have "endsInTerminal (trim e)" using tr lt by (simp add: endsInTerminal_def)
  ultimately show ?thesis using assms(2-4) by (simp add: detectTruncatedText_def)
qed

lemma detect_blank: "\<forall>c\<in>set b. isWhiteSpace c \<Longrightarrow> \<not> detectTruncatedText b"
  by (simp add: detectTruncatedText_def trim_eq_Nil_iff)

text \<open>
  Claim C4. \<open>detectTruncatedText\<close> is true for "Check this out" followed by the
  ellipsis and false for "A complete sentence."; true for every string of 250 code units
  that has no code unit of the non-Latin blocks, is not blank and whose trimmed form does
  not end in one of \<^verbatim>\<open>. ! ? "\<close>; true for every string of 190 code units that contains
  Devanagari and whose trimmed form does not end in terminal punctuation; false for a
  string of 189 Devanagari letters and a full stop, and for every Devanagari string of
  190 code units that ends in terminal punctuation other than a run of three full stops
  and holds no ellipsis before a link; false for every empty or blank string.
\<close>

theorem detectTruncatedText_examples:
  "detectTruncatedText (ascii ''Check this out'' @ ellipsis) \<and>
   \<not> detectTruncatedText (ascii ''A complete sentence.'') \<and>
   (length t = 250 \<and> \<not> hasNonLatinScript t \<and> \<not> (\<forall>c\<in>set t. isWhiteSpace c) \<and>
      \<not> endsInTerminal (trim t) \<longrightarrow> detectTruncatedText t) \<and>
   (length d = 190 \<and> list_ex isDevanagariUnit d \<and> \<not> endsInTerminal (trim d)
      \<longrightarrow> detectTruncatedText d) \<and>
   \<not> detectTruncatedText (replicate 189 2309 @ ascii ''.'') \<and>
   (length e = 190 \<and> list_ex isDevanagariUnit e \<and> endsInTerminal e \<and>
      \<not> endsWith e (ascii ''...'') \<and> \<not> includes_js e (ellipsis @ ascii '' https://'') \<and>
      \<not> includes_js e (ascii ''... https://'') \<longrightarrow> \<not> detectTruncatedText e) \<and>
   ((\<forall>c\<in>set b. isWhiteSpace c) \<longrightarrow> \<not> detectTruncatedText b)"
proof -
  have 1: "detectTruncatedText (ascii ''Check this out'' @ ellipsis)"
    by (simp add: detectTruncatedText_def ascii_def ellipsis_def endsWith_def trim_def
        isWhiteSpace_def)
  have 2: "\<not> detectTruncatedText (ascii ''A complete sentence.'')"
    by (rule detect_terminal)
       (simp_all add: ascii_def ellipsis_def endsInTerminal_def isTerminalUnit_def endsWith_def
         startsWith_def)
  have 5: "\<not> detectTruncatedText (replicate 189 2309 @ ascii ''.'')"
  proof (rule detect_terminal)
    show "endsInTerminal (replicate 189 2309 @ ascii ''.'')"
      by (simp add: endsInTerminal_def isTerminalUnit_def ascii_def)
    show "\<not> endsWith (replicate 189 2309 @ ascii ''.'') (ascii ''...'')"
      by (simp add: endsWith_def ascii_def numeral_2_eq_2)
    show "\<not> includes_js (replicate 189 2309 @ ascii ''.'') (ellipsis @ ascii '' https://'')"
      by (auto dest!: includes_js_set simp: ascii_def ellipsis_def)
    show "\<not> includes_js (replicate 189 2309 @ ascii ''.'') (ascii ''... https://'')"
      by (auto dest!: includes_js_set simp: ascii_def)
  qed
  show ?thesis
    using 1 2 5 detect_long_latin[of t] detect_long_devanagari[of d] detect_terminal[of e]
      detect_blank[of b]
    by blast
qed

text \<open>
  Claim C5, amended. The test of the function words reads one token only, the last one
  of the trimmed text (\<^verbatim>\<open>lastWords[lastWords.length - 1]\<close>): whenever a text is
  \<open>p @ w @ t\<close> with \<open>w\<close> a non-empty run without white space, \<open>t\<close> white space only and
  \<open>p\<close> empty or ending in white space, and the lower case of \<open>w\<close> is one of the function
  words, \<open>detectTruncatedText\<close> is true.
\<close>

theorem detectTruncatedText_last_token:
  assumes "w \<noteq> []" "\<forall>c\<in>set w. \<not> isWhiteSpace c" "\<forall>c\<in>set t. isWhiteSpace c"
    "p = [] \<or> isWhiteSpace (last p)" "toLowerCase w \<in> set commonTruncationEnders"
  shows "detectTruncatedText (p @ w @ t)"
proof -
  let ?q = "dropWhile isWhiteSpace p"
  have tr: "trim (p @ w @ t) = ?q @ w"
    using assms(1-3) by (rule trim_last_token)
  have "last (split_ws (?q @ w)) = w"
  proof (cases "?q = []")
    case True
    have "last (split_ws ([] @ w)) = w"
      by (simp add: split_ws_def splitWhiteSpace_no_ws assms(2))
    then show ?thesis unfolding True .
  next
    case False
    then have "p \<noteq> []" by auto
    then have "isWhiteSpace (last ?q)" using assms(4) False by (simp add: last_dropWhile)
    then show ?thesis
      unfolding split_ws_def using assms(1,2) False
      by (intro splitWhiteSpace_last_token) auto
  qed
  then have "lastWords (p @ w @ t) \<noteq> [] \<and> last (lastWords (p @ w @ t)) = w"
    using slice_last2_last[of "split_ws (?q @ w)"]
    by (simp add: lastWords_def tr split_ws_def splitWhiteSpace_not_Nil)
  moreover have "trim (p @ w @ t) \<noteq> []" using tr assms(1) by simp
  ultimately show ?thesis using assms(1,5)
    by (simp add: detectTruncatedText_def)
qed

text \<open>C5 at "I went to The " (the last token is "The").\<close>

theorem detectTruncatedText_last_token_witness:
  "toLowerCase (ascii ''The'') \<in> set commonTruncationEnders \<and>
   detectTruncatedText (ascii ''I went to '' @ ascii ''The'' @ ascii '' '')"
proof -
  have 1: "ascii ''The'' \<noteq> []" by (simp add: ascii_def)
  have 2: "\<forall>c\<in>set (ascii ''The''). \<not> isWhiteSpace c" by (simp add: ascii_def isWhiteSpace_def)
  have 3: "\<forall>c\<in>set (ascii '' ''). isWhiteSpace c" by (simp add: ascii_def isWhiteSpace_def)
  have 4: "ascii ''I went to '' = [] \<or> isWhiteSpace (last (ascii ''I went to ''))"
    by (simp add: ascii_def isWhiteSpace_def)
  have 5: "toLowerCase (ascii ''The'') \<in> set commonTruncationEnders"
    by (simp add: toLowerCase_def lowerUnit_def commonTruncationEnders_def ascii_def)
  show ?thesis using 5 detectTruncatedText_last_token[OF 1 2 3 4 5] by simp
qed

lemmas detect_defs = detectTruncatedText_def ascii_def ellipsis_def endsWith_def startsWith_def
  trim_def isWhiteSpace_def lastWords_def split_ws_def slice_last2_def toLowerCase_def
  lowerUnit_def commonTruncationEnders_def hasNonLatinScript_def isNonLatinUnit_def
  endsInTerminal_def isTerminalUnit_def

text \<open>
  C5 as stated fails: the last two tokens of "the cat" are "the" and "cat", the first of
  them is a function word, and the text is not reported as truncated.
\<close>

theorem detectTruncatedText_second_last_counterexample:
  "lastWords (ascii ''the cat'') = [ascii ''the'', ascii ''cat''] \<and>
   toLowerCase (ascii ''the'') \<in> set commonTruncationEnders \<and>
   ascii ''the cat'' \<noteq> [] \<and>
   \<not> detectTruncatedText (ascii ''the cat'')"
  by (simp add: detect_defs)

lemma trim_id: "s \<noteq> [] \<Longrightarrow> \<not> isWhiteSpace (hd s) \<Longrightarrow> \<not> isWhiteSpace (last s) \<Longrightarrow> trim s = s"
proof -
  assume a: "s \<noteq> []" "\<not> isWhiteSpace (hd s)" "\<not> isWhiteSpace (last s)"
  have 1: "dropWhile isWhiteSpace s = s" using a(1,2) by (cases s) auto
  have 2: "dropWhile isWhiteSpace (rev s) = rev s" using a(1,3) by (cases s rule: rev_cases) auto
  show ?thesis by (simp add: trim_def 1 2)
qed

text \<open>
  C4 at concrete inputs: 250 letters \<^verbatim>\<open>a\<close>, 190 Devanagari letters, 189 Devanagari
  letters and an exclamation mark, three spaces.
\<close>

theorem detectTruncatedText_examples_witness:
  "length (replicate 250 (97::nat)) = 250 \<and> detectTruncatedText (replicate 250 97) \<and>
   length (replicate 190 (2309::nat)) = 190 \<and> detectTruncatedText (replicate 190 2309) \<and>
   length (replicate 189 2309 @ ascii ''!'') = 190 \<and>
   \<not> detectTruncatedText (replicate 189 2309 @ ascii ''!'') \<and>
   \<not> detectTruncatedText (ascii ''   '')"
proof -
  let ?t = "replicate 250 (97::nat)" and ?d = "replicate 190 (2309::nat)"
  let ?e = "replicate 189 2309 @ ascii ''!''" and ?b = "ascii ''   ''"
  have t: "length ?t = 250 \<and> \<not> hasNonLatinScript ?t \<and> \<not> (\<forall>c\<in>set ?t. isWhiteSpace c) \<and>
      \<not> endsInTerminal (trim ?t)"
    by (simp add: trim_id hasNonLatinScript_def list_ex_iff isNonLatinUnit_def isWhiteSpace_def
        endsInTerminal_def isTerminalUnit_def)
  have d: "length ?d = 190 \<and> list_ex isDevanagariUnit ?d \<and> \<not> endsInTerminal (trim ?d)"
    by (simp add: trim_id list_ex_iff isDevanagariUnit_def isWhiteSpace_def
        endsInTerminal_def isTerminalUnit_def)
  have e1: "length ?e = 190 \<and> list_ex isDevanagariUnit ?e \<and> endsInTerminal ?e \<and>
      \<not> endsWith ?e (ascii ''...'')"
    by (simp add: list_ex_iff isDevanagariUnit_def endsInTerminal_def isTerminalUnit_def ascii_def
        endsWith_def numeral_2_eq_2)
  have e2: "\<not> includes_js ?e (ellipsis @ ascii '' https://'')"
    by (auto dest!: includes_js_set simp: ascii_def ellipsis_def)
  have e3: "\<not> includes_js ?e (ascii ''... https://'')"
    by (auto dest!: includes_js_set simp: ascii_def)
  have b: "\<forall>c\<in>set ?b. isWhiteSpace c" by (simp add: ascii_def isWhiteSpace_def)
  show ?thesis
    using detectTruncatedText_examples[where t = ?t and d = ?d and e = ?e and b = ?b]
      t d e1 e2 e3 b
    by simp
qed

text \<open>
  Claim C3, amended. \<open>is_long\<close> of the normalized post is true exactly when the raw text
  chosen by the normalizer (\<^verbatim>\<open>extended_text\<close>, else \<^verbatim>\<open>extended_tweet.full_text\<close>, else
  \<^verbatim>\<open>full_text\<close>, else \<^verbatim>\<open>text\<close>, else empty) has more than 280 code units, or truncation is
  detected on that raw text, before it is cleaned.
\<close>

theorem processTweet_is_long:
  "is_long (processTweet tweet) \<longleftrightarrow>
     length (textContent tweet) > 280 \<or> detectTruncatedText (textContent tweet)"
  by (simp add: processTweet_def Let_def)

text \<open>C3 at a raw record whose text is 281 full stops.\<close>

theorem processTweet_is_long_witness:
  "length (textContent (textOnly (replicate 281 46))) > 280 \<and>
   is_long (processTweet (textOnly (replicate 281 46)))"
  using processTweet_is_long[of "textOnly (replicate 281 46)"]
  by (simp add: textContent_def textOnly_def str_or_def)

lemma textContent_textOnly: "s \<noteq> [] \<Longrightarrow> textContent (textOnly s) = s"
  by (simp add: textContent_def textOnly_def str_or_def)

text \<open>
  C3 as stated fails twice. A text of 249 letters and a full stop is longer than 240 code
  units and \<open>is_long\<close> is false. The text "Hello..." has 8 code units, its cleaned
  \<open>full_text\<close> is "Hello", on which no truncation is detected, and \<open>is_long\<close> is true.
\<close>

theorem processTweet_is_long_counterexample:
  "length (textContent (textOnly (replicate 249 97 @ ascii ''.''))) > 240 \<and>
   \<not> is_long (processTweet (textOnly (replicate 249 97 @ ascii ''.''))) \<and>
   \<not> length (textContent (textOnly (ascii ''Hello...''))) > 240 \<and>
   full_text (processTweet (textOnly (ascii ''Hello...''))) = Some (ascii ''Hello'') \<and>
   \<not> detectTruncatedText (ascii ''Hello'') \<and>
   is_long (processTweet (textOnly (ascii ''Hello...'')))"
proof -
  let ?s = "replicate 249 97 @ ascii ''.''"
  have s: "textContent (textOnly ?s) = ?s" by (rule textContent_textOnly) simp
  have "\<not> detectTruncatedText ?s"
  proof (rule detect_terminal)
    show "endsInTerminal ?s" by (simp add: endsInTerminal_def isTerminalUnit_def ascii_def)
    show "\<not> endsWith ?s (ascii ''...'')" by (simp add: endsWith_def ascii_def numeral_2_eq_2)
    show "\<not> includes_js ?s (ellipsis @ ascii '' https://'')"
      by (auto dest!: includes_js_set simp: ascii_def ellipsis_def)
    show "\<not> includes_js ?s (ascii ''... https://'')"
      by (auto dest!: includes_js_set simp: ascii_def)
  qed
  moreover have len: "length ?s = 250" by (simp add: ascii_def)
  ultimately have 1: "\<not> is_long (processTweet (textOnly ?s))"
    by (simp add: processTweet_def Let_def s del: length_append length_replicate)
  have h: "textContent (textOnly (ascii ''Hello...'')) = ascii ''Hello...''"
    by (rule textContent_textOnly) (simp add: ascii_def)
  have 2: "full_text (processTweet (textOnly (ascii ''Hello...''))) = Some (ascii ''Hello'')"
    unfolding processTweet_def Let_def h
    by (simp add: cleanText_def stripTrailingLink_def stripTrailingDots_def takeWhileEnd_def
        dropWhileEnd_def isDotUnit_def isWordChar_def tcoLink_def endsWith_def isWhiteSpace_def ascii_def)
  have 3: "\<not> detectTruncatedText (ascii ''Hello'')" by (simp add: detect_defs)
  have 4: "is_long (processTweet (textOnly (ascii ''Hello...'')))"
    unfolding processTweet_def Let_def h by (simp add: detectTruncatedText_def endsWith_def trim_def ascii_def isWhiteSpace_def)
  have 5: "\<not> length (ascii ''Hello...'') > 240" by (simp add: ascii_def)
  show ?thesis unfolding s h using 1 2 3 4 5 len by simp
qed

section \<open>Properties of the gateway\<close>

lemma hasRecentlyFailed_fields [simp]:
  "sentRequests (snd (hasRecentlyFailed url g)) = sentRequests g"
  "clock (snd (hasRecentlyFailed url g)) = clock g"
  "lastApiCallTime (snd (hasRecentlyFailed url g)) = lastApiCallTime g"
  by (cases "failedRequests g url"; simp add: hasRecentlyFailed_def)+

lemma hasRecentlyFailed_fst:
  "fst (hasRecentlyFailed url g) \<longleftrightarrow>
      (\<exists>r. failedRequests g url = Some r \<and>
           clock g - timestamp r \<le> FAILED_REQUEST_EXPIRY \<and>
           (\<forall>deadline. retryAfter r = Some deadline \<longrightarrow> deadline = 0 \<or> clock g \<le> deadline))"
proof (cases "failedRequests g url")
  case None
  then show ?thesis by (simp add: hasRecentlyFailed_def)
next
  case (Some r)
  show ?thesis
  proof (cases "retryAfter r")
    case None
    with Some show ?thesis by (simp add: hasRecentlyFailed_def not_less)
  next
    case (Some d)
    with \<open>failedRequests g url = Some r\<close> show ?thesis
      by (auto simp: hasRecentlyFailed_def not_less)
  qed
qed

lemma hasRecentlyFailed_snd:
  "snd (hasRecentlyFailed url g) =
     (if fst (hasRecentlyFailed url g) \<or> failedRequests g url = None then g
      else g\<lparr>failedRequests := (failedRequests g)(url := None)\<rparr>)"
proof (cases "failedRequests g url")
  case None
  then show ?thesis by (simp add: hasRecentlyFailed_def)
next
  case (Some r)
  then show ?thesis by (cases "retryAfter r") (simp_all add: hasRecentlyFailed_def)
qed

lemma hasRecentlyFailed_True_state:
  "fst (hasRecentlyFailed url g) \<Longrightarrow> snd (hasRecentlyFailed url g) = g"
  by (simp add: hasRecentlyFailed_snd)

lemma hasRecentlyFailed_False_purged:
  "\<not> fst (hasRecentlyFailed url g) \<Longrightarrow> failedRequests (snd (hasRecentlyFailed url g)) url = None"
  by (simp add: hasRecentlyFailed_snd)

lemma xhrSend_sent [simp]:
  "sentRequests (snd (xhrSend net url g)) = sentRequests g @ [url]"
  by (simp add: xhrSend_def Let_def rateLimit_def sleep_def)

lemma xhrSend_failed [simp]:
  "failedRequests (snd (xhrSend net url g)) = failedRequests g"
  by (simp add: xhrSend_def Let_def rateLimit_def sleep_def)

lemma sleep_fields [simp]:
  "sentRequests (sleep ms g) = sentRequests g"
  "failedRequests (sleep ms g) = failedRequests g"
  "clock (sleep ms g) = clock g + max 0 ms"
  by (simp_all add: sleep_def)

lemma recordFailedRequest_sent [simp]:
  "sentRequests (recordFailedRequest url code ra g) = sentRequests g"
  by (simp add: recordFailedRequest_def Let_def)

lemma recordFailedRequest_entry:
  "failedRequests (recordFailedRequest url code ra g) url =
     Some \<lparr> timestamp = clock g, errorCode = code,
            retryAfter = (case ra of None \<Rightarrow> None
                          | Some ms \<Rightarrow> if ms \<noteq> 0 then Some (clock g + ms) else None) \<rparr>"
  by (simp add: recordFailedRequest_def Let_def FAILED_REQUEST_EXPIRY_def)

lemma makeApiRequest_skip:
  "fst (hasRecentlyFailed url g) \<Longrightarrow>
   makeApiRequest net url k g = (Inl (SkippedRecentlyFailed url), g)"
  using hasRecentlyFailed_True_state[of url g]
  by (subst makeApiRequest.simps) (cases "hasRecentlyFailed url g", simp)

lemma makeApiRequest_ok:
  assumes "\<not> fst (hasRecentlyFailed url g)"
    and "xhrSend net url (snd (hasRecentlyFailed url g)) = (response, g2)"
    and "status response \<ge> 200 \<and> status response < 300"
  shows "makeApiRequest net url k g =
     (case responseJSON response of Some json \<Rightarrow> (Inr json, g2) | None \<Rightarrow> (Inl ParseFailed, g2))"
  using assms by (subst makeApiRequest.simps) (cases "hasRecentlyFailed url g", simp)

lemma makeApiRequest_retry:
  assumes "\<not> fst (hasRecentlyFailed url g)"
    and "xhrSend net url (snd (hasRecentlyFailed url g)) = (response, g2)"
    and "status response = 429" "k < MAX_RETRIES"
  shows "makeApiRequest net url k g =
     makeApiRequest net url (k + 1) (sleep (RETRY_DELAY * 2 ^ k) g2)"
  using assms by (subst makeApiRequest.simps) (cases "hasRecentlyFailed url g", simp)

lemma makeApiRequest_fail:
  assumes "\<not> fst (hasRecentlyFailed url g)"
    and "xhrSend net url (snd (hasRecentlyFailed url g)) = (response, g2)"
    and "\<not> (status response \<ge> 200 \<and> status response < 300)"
    and "\<not> (status response = 429 \<and> k < MAX_RETRIES)"
  shows "makeApiRequest net url k g =
     (Inl (ApiError (status response)),
      recordFailedRequest url (status response)
        (if status response = 429 then Some 60000 else None) g2)"
  using assms by (subst makeApiRequest.simps) (cases "hasRecentlyFailed url g", auto)

lemma makeApiRequest_sent:
  "\<exists>rest. sentRequests (snd (makeApiRequest net url k g)) = sentRequests g @ rest"
proof (induction "MAX_RETRIES - k" arbitrary: k g rule: less_induct)
  case less
  show ?case
  proof (cases "fst (hasRecentlyFailed url g)")
    case True
    then show ?thesis by (simp add: makeApiRequest_skip)
  next
    case False
    obtain response g2 where x: "xhrSend net url (snd (hasRecentlyFailed url g)) = (response, g2)"
      by (cases "xhrSend net url (snd (hasRecentlyFailed url g))")
    have s2: "sentRequests g2 = sentRequests g @ [url]"
      using xhrSend_sent[of net url "snd (hasRecentlyFailed url g)"] x by simp
    consider (ok) "status response \<ge> 200 \<and> status response < 300"
      | (retry) "\<not> (status response \<ge> 200 \<and> status response < 300)"
          "status response = 429" "k < MAX_RETRIES"
      | (fail) "\<not> (status response \<ge> 200 \<and> status response < 300)"
          "\<not> (status response = 429 \<and> k < MAX_RETRIES)"
      by blast
    then show ?thesis
    proof cases
      case ok
      show ?thesis
        unfolding makeApiRequest_ok[OF False x ok] using s2
        by (cases "responseJSON response") simp_all
    next
      case retry
      have "MAX_RETRIES - (k + 1) < MAX_RETRIES - k" using retry(3) by simp
      from less.hyps[OF this, of "sleep (RETRY_DELAY * 2 ^ k) g2"]
      show ?thesis
        unfolding makeApiRequest_retry[OF False x retry(2,3)] using s2 by auto
    next
      case fail
      show ?thesis
        unfolding makeApiRequest_fail[OF False x fail] using s2 by simp
    qed
  qed
qed

text \<open>
  Claim C6, amended. The check before a request fails fast exactly when the url has a
  failure record, at most 10 minutes (600000 ms, inclusive) have passed since its time
  stamp, and the record's retry-after deadline, if it has one (the records of a 429 do,
  60 seconds after the time stamp), has not passed. When it fails fast the request ends
  with the "recently failed" error and the gateway is unchanged: nothing is sent. In
  every other case the url has no record after the check and the request is sent.
\<close>

theorem hasRecentlyFailed_gate:
  "(fst (hasRecentlyFailed url g) \<longleftrightarrow>
      (\<exists>r. failedRequests g url = Some r \<and>
           clock g - timestamp r \<le> FAILED_REQUEST_EXPIRY \<and>
           (\<forall>deadline. retryAfter r = Some deadline \<longrightarrow> deadline = 0 \<or> clock g \<le> deadline))) \<and>
   (fst (hasRecentlyFailed url g) \<longrightarrow>
      makeApiRequest net url k g = (Inl (SkippedRecentlyFailed url), g)) \<and>
   (\<not> fst (hasRecentlyFailed url g) \<longrightarrow>
      failedRequests (snd (hasRecentlyFailed url g)) url = None \<and>
      (\<exists>rest. sentRequests (snd (makeApiRequest net url k g)) = sentRequests g @ url # rest))"
proof (intro conjI impI)
  show "fst (hasRecentlyFailed url g) \<longleftrightarrow>
      (\<exists>r. failedRequests g url = Some r \<and>
           clock g - timestamp r \<le> FAILED_REQUEST_EXPIRY \<and>
           (\<forall>deadline. retryAfter r = Some deadline \<longrightarrow> deadline = 0 \<or> clock g \<le> deadline))"
    by (rule hasRecentlyFailed_fst)
next
  assume "fst (hasRecentlyFailed url g)"
  then show "makeApiRequest net url k g = (Inl (SkippedRecentlyFailed url), g)"
    by (rule makeApiRequest_skip)
next
  assume "\<not> fst (hasRecentlyFailed url g)"
  then show "failedRequests (snd (hasRecentlyFailed url g)) url = None"
    by (rule hasRecentlyFailed_False_purged)
next
  assume f: "\<not> fst (hasRecentlyFailed url g)"
  obtain response g2 where x: "xhrSend net url (snd (hasRecentlyFailed url g)) = (response, g2)"
    by (cases "xhrSend net url (snd (hasRecentlyFailed url g))")
  have s2: "sentRequests g2 = sentRequests g @ [url]"
    using xhrSend_sent[of net url "snd (hasRecentlyFailed url g)"] x by simp
  consider (ok) "status response \<ge> 200 \<and> status response < 300"
    | (retry) "\<not> (status response \<ge> 200 \<and> status response < 300)"
        "status response = 429" "k < MAX_RETRIES"
    | (fail) "\<not> (status response \<ge> 200 \<and> status response < 300)"
        "\<not> (status response = 429 \<and> k < MAX_RETRIES)"
    by blast
  then show "\<exists>rest. sentRequests (snd (makeApiRequest net url k g)) = sentRequests g @ url # rest"
  proof cases
    case ok
    show ?thesis
      unfolding makeApiRequest_ok[OF f x ok] using s2
      by (cases "responseJSON response") simp_all
  next
    case retry
    obtain rest where
      "sentRequests (snd (makeApiRequest net url (k + 1) (sleep (RETRY_DELAY * 2 ^ k) g2)))
         = sentRequests (sleep (RETRY_DELAY * 2 ^ k) g2) @ rest"
      using makeApiRequest_sent by blast
    then show ?thesis
      unfolding makeApiRequest_retry[OF f x retry(2,3)] using s2 by simp
  next
    case fail
    show ?thesis
      unfolding makeApiRequest_fail[OF f x fail] using s2 by simp
  qed
qed

text \<open>
  C6 for a 429 recorded at time 0: at 30 seconds the request is skipped, at 60001 ms it
  is sent.
\<close>

theorem hasRecentlyFailed_gate_witness:
  "fst (hasRecentlyFailed (ascii ''u'') (gatewayAt [ascii ''u'' \<mapsto> rateLimited429] 30000)) \<and>
   makeApiRequest (always 200) (ascii ''u'') 0 (gatewayAt [ascii ''u'' \<mapsto> rateLimited429] 30000)
     = (Inl (SkippedRecentlyFailed (ascii ''u'')), gatewayAt [ascii ''u'' \<mapsto> rateLimited429] 30000) \<and>
   \<not> fst (hasRecentlyFailed (ascii ''u'') (gatewayAt [ascii ''u'' \<mapsto> rateLimited429] 60001)) \<and>
   (\<exists>rest. sentRequests (snd (makeApiRequest (always 200) (ascii ''u'') 0
       (gatewayAt [ascii ''u'' \<mapsto> rateLimited429] 60001))) = ascii ''u'' # rest)"
proof -
  let ?u = "ascii ''u''"
  have a: "fst (hasRecentlyFailed ?u (gatewayAt [?u \<mapsto> rateLimited429] 30000))"
    by (simp add: hasRecentlyFailed_def gatewayAt_def rateLimited429_def FAILED_REQUEST_EXPIRY_def)
  have b: "\<not> fst (hasRecentlyFailed ?u (gatewayAt [?u \<mapsto> rateLimited429] 60001))"
    by (simp add: hasRecentlyFailed_def gatewayAt_def rateLimited429_def FAILED_REQUEST_EXPIRY_def)
  have c: "sentRequests (gatewayAt [?u \<mapsto> rateLimited429] 60001) = []"
    by (simp add: gatewayAt_def)
  show ?thesis
    using a b c
      hasRecentlyFailed_gate[of ?u "gatewayAt [?u \<mapsto> rateLimited429] 30000" "always 200" 0]
      hasRecentlyFailed_gate[of ?u "gatewayAt [?u \<mapsto> rateLimited429] 60001" "always 200" 0]
    by simp
qed

text \<open>
  C6 as stated fails. Two minutes after a 429 was recorded less than 10 minutes have
  passed, and the request is not skipped. Exactly 10 minutes after a 500 was recorded it
  is not true that less than 10 minutes have passed, the record has no deadline, and the
  request is skipped.
\<close>

theorem hasRecentlyFailed_gate_counterexample:
  "failedRequests (gatewayAt [ascii ''u'' \<mapsto> rateLimited429] 120000) (ascii ''u'') = Some rateLimited429 \<and>
   clock (gatewayAt [ascii ''u'' \<mapsto> rateLimited429] 120000) - timestamp rateLimited429 < 10 * 60 * 1000 \<and>
   \<not> fst (hasRecentlyFailed (ascii ''u'') (gatewayAt [ascii ''u'' \<mapsto> rateLimited429] 120000)) \<and>
   failedRequests (gatewayAt [ascii ''u'' \<mapsto> serverError500] 600000) (ascii ''u'') = Some serverError500 \<and>
   \<not> clock (gatewayAt [ascii ''u'' \<mapsto> serverError500] 600000) - timestamp serverError500 < 10 * 60 * 1000 \<and>
   retryAfter serverError500 = None \<and>
   fst (hasRecentlyFailed (ascii ''u'') (gatewayAt [ascii ''u'' \<mapsto> serverError500] 600000))"
  by (simp add: hasRecentlyFailed_def gatewayAt_def rateLimited429_def serverError500_def
      FAILED_REQUEST_EXPIRY_def)

text \<open>
  Claim C7. Let a request that is not skipped get \<open>response\<close> for its attempt number \<open>k\<close>.
  On status 429 with \<open>k < 2\<close> the request continues as attempt \<open>k + 1\<close> after a pause of
  \<open>3000 * 2 ^ k\<close> ms, with the failure cache as it was and no record for the url, so the
  retry is not skipped. On a status outside 200..299 that is not such a 429 the request
  fails with the status and the url is recorded with the time of the failure, with a
  deadline 60000 ms later for a 429 and none otherwise. On a status in 200..299 the
  failure cache is not written.
\<close>

theorem makeApiRequest_retry_policy:
  assumes "\<not> fst (hasRecentlyFailed url g)"
    and "xhrSend net url (snd (hasRecentlyFailed url g)) = (response, g2)"
  shows
   "(status response = 429 \<and> k < 2 \<longrightarrow>
       makeApiRequest net url k g =
         makeApiRequest net url (k + 1) (sleep (3000 * 2 ^ k) g2) \<and>
       clock (sleep (3000 * 2 ^ k) g2) = clock g2 + 3000 * 2 ^ k \<and>
       failedRequests (sleep (3000 * 2 ^ k) g2) = failedRequests (snd (hasRecentlyFailed url g)) \<and>
       \<not> fst (hasRecentlyFailed url (sleep (3000 * 2 ^ k) g2))) \<and>
    (\<not> (status response \<ge> 200 \<and> status response < 300) \<and> \<not> (status response = 429 \<and> k < 2) \<longrightarrow>
       fst (makeApiRequest net url k g) = Inl (ApiError (status response)) \<and>
       failedRequests (snd (makeApiRequest net url k g)) url =
         Some \<lparr> timestamp = clock g2, errorCode = status response,
                retryAfter = (if status response = 429 then Some (clock g2 + 60000) else None) \<rparr>) \<and>
    (status response \<ge> 200 \<and> status response < 300 \<longrightarrow>
       fst (makeApiRequest net url k g) \<noteq> Inl (ApiError (status response)) \<and>
       failedRequests (snd (makeApiRequest net url k g)) = failedRequests (snd (hasRecentlyFailed url g)))"
proof (intro conjI impI)
  have f2: "failedRequests g2 = failedRequests (snd (hasRecentlyFailed url g))"
    using xhrSend_failed[of net url "snd (hasRecentlyFailed url g)"] assms(2) by simp
  {
    assume r: "status response = 429 \<and> k < 2"
    then show "makeApiRequest net url k g =
         makeApiRequest net url (k + 1) (sleep (3000 * 2 ^ k) g2)"
      using makeApiRequest_retry[OF assms, of k] by (simp add: MAX_RETRIES_def RETRY_DELAY_def)
    show "clock (sleep (3000 * 2 ^ k) g2) = clock g2 + 3000 * 2 ^ k" by simp
    show "failedRequests (sleep (3000 * 2 ^ k) g2) = failedRequests (snd (hasRecentlyFailed url g))"
      using f2 by simp
    have "failedRequests (sleep (3000 * 2 ^ k) g2) url = None"
      using f2 hasRecentlyFailed_False_purged[OF assms(1)] by simp
    then show "\<not> fst (hasRecentlyFailed url (sleep (3000 * 2 ^ k) g2))"
      by (simp add: hasRecentlyFailed_fst)
  }
  {
    assume a: "\<not> (status response \<ge> 200 \<and> status response < 300) \<and> \<not> (status response = 429 \<and> k < 2)"
    then have m: "makeApiRequest net url k g =
       (Inl (ApiError (status response)),
        recordFailedRequest url (status response)
          (if status response = 429 then Some 60000 else None) g2)"
      using makeApiRequest_fail[OF assms, of k] by (simp add: MAX_RETRIES_def)
    show "fst (makeApiRequest net url k g) = Inl (ApiError (status response))"
      by (simp add: m)
    show "failedRequests (snd (makeApiRequest net url k g)) url =
         Some \<lparr> timestamp = clock g2, errorCode = status response,
                retryAfter = (if status response = 429 then Some (clock g2 + 60000) else None) \<rparr>"
      by (simp add: m recordFailedRequest_entry)
  }
  {
    assume ok: "status response \<ge> 200 \<and> status response < 300"
    have m: "makeApiRequest net url k g =
      (case responseJSON response of Some json \<Rightarrow> (Inr json, g2) | None \<Rightarrow> (Inl ParseFailed, g2))"
      using makeApiRequest_ok[OF assms ok] .
    show "fst (makeApiRequest net url k g) \<noteq> Inl (ApiError (status response))"
      by (cases "responseJSON response") (simp_all add: m)
    show "failedRequests (snd (makeApiRequest net url k g)) = failedRequests (snd (hasRecentlyFailed url g))"
      using f2 by (cases "responseJSON response") (simp_all add: m)
  }
qed

text \<open>
  C7 for a server that always answers 429: attempt 0 pauses 3000 ms, attempt 1 pauses
  6000 ms, attempt 2 fails and records the url at time 11000 with deadline 71000. For a
  server that answers 200 the failure cache stays empty.
\<close>

theorem makeApiRequest_retry_policy_witness:
  "makeApiRequest (always 429) (ascii ''u'') 0 (gatewayAt Map.empty 0) =
     makeApiRequest (always 429) (ascii ''u'') 2
       \<lparr> failedRequests = Map.empty, clock = 11000, lastApiCallTime = 5000,
         sentRequests = [ascii ''u'', ascii ''u''] \<rparr> \<and>
   fst (makeApiRequest (always 429) (ascii ''u'') 0 (gatewayAt Map.empty 0)) = Inl (ApiError 429) \<and>
   failedRequests (snd (makeApiRequest (always 429) (ascii ''u'') 0 (gatewayAt Map.empty 0)))
     (ascii ''u'') = Some \<lparr> timestamp = 11000, errorCode = 429, retryAfter = Some 71000 \<rparr> \<and>
   failedRequests (snd (makeApiRequest (always 200) (ascii ''u'') 0 (gatewayAt Map.empty 0)))
     = Map.empty"
proof -
  let ?u = "ascii ''u''"
  let ?G = "\<lambda>c l s. \<lparr> failedRequests = Map.empty, clock = c, lastApiCallTime = l,
                       sentRequests = s \<rparr>"
  let ?r = "\<lparr> status = 429, responseJSON = Some (), latency = 0 \<rparr>"
  let ?ok = "\<lparr> status = 200, responseJSON = Some (), latency = 0 \<rparr>"
  have n: "\<And>c l s. hasRecentlyFailed ?u (?G c l s) = (False, ?G c l s)"
    by (simp add: hasRecentlyFailed_def)
  have x0: "xhrSend (always 429) ?u (snd (hasRecentlyFailed ?u (?G 0 0 []))) = (?r, ?G 2000 2000 [?u])"
    by (simp add: n xhrSend_def rateLimit_def sleep_def always_def MIN_API_CALL_INTERVAL_def)
  have x1: "xhrSend (always 429) ?u (snd (hasRecentlyFailed ?u (?G 5000 2000 [?u])))
              = (?r, ?G 5000 5000 [?u, ?u])"
    by (simp add: n xhrSend_def rateLimit_def sleep_def always_def MIN_API_CALL_INTERVAL_def)
  have x2: "xhrSend (always 429) ?u (snd (hasRecentlyFailed ?u (?G 11000 5000 [?u, ?u])))
              = (?r, ?G 11000 11000 [?u, ?u, ?u])"
    by (simp add: n xhrSend_def rateLimit_def sleep_def always_def MIN_API_CALL_INTERVAL_def)
  have y0: "xhrSend (always 200) ?u (snd (hasRecentlyFailed ?u (?G 0 0 []))) = (?ok, ?G 2000 2000 [?u])"
    by (simp add: n xhrSend_def rateLimit_def sleep_def always_def MIN_API_CALL_INTERVAL_def)
  have s0: "makeApiRequest (always 429) ?u 0 (?G 0 0 []) =
            makeApiRequest (always 429) ?u 1 (?G 5000 2000 [?u])"
    using makeApiRequest_retry_policy[OF _ x0, of 0] by (simp add: n sleep_def)
  have s1: "makeApiRequest (always 429) ?u 1 (?G 5000 2000 [?u]) =
            makeApiRequest (always 429) ?u 2 (?G 11000 5000 [?u, ?u])"
    using makeApiRequest_retry_policy[OF _ x1, of 1] by (simp add: n sleep_def numeral_2_eq_2)
  have s2: "fst (makeApiRequest (always 429) ?u 2 (?G 11000 5000 [?u, ?u])) = Inl (ApiError 429) \<and>
            failedRequests (snd (makeApiRequest (always 429) ?u 2 (?G 11000 5000 [?u, ?u]))) ?u
              = Some \<lparr> timestamp = 11000, errorCode = 429, retryAfter = Some 71000 \<rparr>"
    using makeApiRequest_retry_policy[OF _ x2, of 2] by (simp add: n)
  have s3: "failedRequests (snd (makeApiRequest (always 200) ?u 0 (?G 0 0 []))) = Map.empty"
    using makeApiRequest_retry_policy[OF _ y0, of 0] by (simp add: n)
  show ?thesis using s0 s1 s2 s3 by (simp add: gatewayAt_def)
qed

section \<open>Properties of the thread grouping engine\<close>

lemmas post_defs = processTweet_def textContent_def str_or_def js_or_def truthy_def rawPost_def
  cleanText_def stripTrailingLink_def stripTrailingDots_def takeWhileEnd_def
  dropWhileEnd_def isDotUnit_def isWordChar_def tcoLink_def detect_defs Let_def

lemma chain3_posts: "chain3 =
  [post ''1'' ''2024-01-01'' ''1'' [] False None,
   post ''2'' ''2024-01-02'' ''1'' ''1'' True None,
   post ''3'' ''2024-01-03'' ''2'' ''2'' True None]"
  by (simp add: chain3_def post_def post_defs)

lemma twoPairs_posts: "twoPairs =
  [post ''1'' ''2024-01-01'' ''c'' [] False None,
   post ''2'' ''2024-01-02'' ''c'' ''1'' False None,
   post ''3'' ''2024-01-03'' ''c'' [] False None,
   post ''4'' ''2024-01-04'' ''c'' ''3'' False None]"
  by (simp add: twoPairs_def post_def post_defs)

lemma strayAndPair_posts: "strayAndPair =
  [(post ''1'' ''2024-01-01'' ''x'' [] False None)
     \<lparr>author_id := Some (ascii ''u2''), author_username := Some (ascii ''bob'')\<rparr>,
   post ''2'' ''2024-01-02'' ''standalone'' [] False None,
   post ''3'' ''2024-01-03'' ''standalone'' ''2'' False None]"
  by (simp add: strayAndPair_def post_def post_defs)

text \<open>
  Claim C1 does not hold of the code. \<open>chain3\<close> is what the normalizer makes of a chain
  of three posts of one author, each a reply to the one before, when the API gives no
  conversation id (the conversation id is then the reply target). The ids are distinct.
  The self-thread pass files post 2 under key "1" with its parent and under key "2" with
  its reply, and the second pass emits both groups: post 2 is in two output threads.
\<close>

theorem groupThreads_duplicate_post:
  "distinct (map tweet_id chain3) \<and>
   resultIds (groupThreads 65535 isoDay chain3) =
     Inr [ [ascii ''2'', ascii ''3''], [ascii ''1'', ascii ''2'']]"
  unfolding chain3_posts by code_simp

text \<open>
  Claim C10 does not hold of the code. \<open>twoPairs\<close> has four posts with distinct ids in one
  conversation "c", posts 2 and 4 being replies to posts 1 and 3 with no
  \<^verbatim>\<open>in_reply_to_user_id\<close>. The residual pass stores the thread of posts 1 and 2 under
  key "c" and then stores the thread of posts 3 and 4 under the same key: posts 1 and 2
  are marked as processed and appear nowhere in the output.
\<close>

theorem groupThreads_dropped_posts:
  "distinct (map tweet_id twoPairs) \<and>
   groupThreads 65535 isoDay twoPairs = Inr [ThreadItem pair34] \<and>
   resultIds (groupThreads 65535 isoDay twoPairs) = Inr [ [ascii ''3'', ascii ''4'']]"
  unfolding twoPairs_posts by code_simp

lemma insort_try_set: "insort_try cmp x ys = Inr zs \<Longrightarrow> set zs = insert x (set ys)"
proof (induction ys arbitrary: zs)
  case Nil
  then show ?case by auto
next
  case (Cons y ys)
  show ?case
  proof (cases "cmp x y")
    case (Inl e)
    with Cons.prems show ?thesis by simp
  next
    case (Inr v)
    show ?thesis
    proof (cases "notAfter v")
      case True
      with Inr Cons.prems show ?thesis by auto
    next
      case False
      show ?thesis
      proof (cases "insort_try cmp x ys")
        case (Inl e)
        with Inr False Cons.prems show ?thesis by simp
      next
        case r: (Inr zs')
        then have "set zs' = insert x (set ys)" by (rule Cons.IH)
        moreover have "zs = y # zs'" using Inr False r Cons.prems by simp
        ultimately show ?thesis by auto
      qed
    qed
  qed
qed

lemma js_sort_try_set: "js_sort_try cmp xs = Inr ys \<Longrightarrow> set ys = set xs"
proof (induction xs arbitrary: ys)
  case Nil
  then show ?case by simp
next
  case (Cons x xs)
  show ?case
  proof (cases "js_sort_try cmp xs")
    case (Inl e)
    with Cons.prems show ?thesis by simp
  next
    case (Inr zs)
    then have "set zs = set xs" by (rule Cons.IH)
    moreover have "insort_try cmp x zs = Inr ys" using Inr Cons.prems by simp
    ultimately show ?thesis using insort_try_set[of cmp x zs ys] by simp
  qed
qed

lemma forEachTry_pushEntry_thread:
  "forEachTry (pushEntry maxArguments h) tm acc = Inr items \<Longrightarrow>
   ThreadItem th \<in> set items \<Longrightarrow>
   ThreadItem th \<in> set acc \<or> 2 \<le> length (thread_tweets th)"
proof (induction tm arbitrary: acc)
  case Nil
  then show ?case by simp
next
  case (Cons entry tm)
  obtain key refs where e: "entry = (key, refs)" by (cases entry)
  from Cons.prems(1) obtain acc' where
    1: "pushEntry maxArguments h entry acc = Inr acc'" and
    2: "forEachTry (pushEntry maxArguments h) tm acc' = Inr items"
    by (cases "pushEntry maxArguments h entry acc") simp_all
  from Cons.IH[OF 2 Cons.prems(2)]
  have "ThreadItem th \<in> set acc' \<or> 2 \<le> length (thread_tweets th)" .
  moreover have "ThreadItem th \<in> set acc \<or> 2 \<le> length (thread_tweets th)"
    if "ThreadItem th \<in> set acc'"
    using 1 that unfolding e
    by (auto simp: pushEntry_def pushSpread_def split: if_splits list.splits)
  ultimately show ?case by blast
qed

text \<open>Every thread in the output of \<open>groupThreads\<close> has at least two posts.\<close>

lemma groupThreads_threads_have_two_posts:
  assumes "groupThreads maxArguments getTime tweets = Inr items" "ThreadItem th \<in> set items"
  shows "2 \<le> length (thread_tweets th)"
proof -
  from assms(1) obtain h tm result where
    b: "buildResult maxArguments h tm = Inr result" and
    s: "js_sort_try (newestFirst getTime) result = Inr items"
    by (auto simp: groupThreads_def Let_def split: sum.splits)
  have "set items = set result" using s by (rule js_sort_try_set)
  then show ?thesis
    using forEachTry_pushEntry_thread[OF b[unfolded buildResult_def], of th] assms(2) by simp
qed

text \<open>
  Claim C2 does not hold of the code. Its first half does
  (\<open>groupThreads_threads_have_two_posts\<close>); its second half, that a candidate group of
  exactly one member is emitted as a standalone post, fails at \<open>strayAndPair\<close>. The ids
  are distinct. The candidate group of post 1 is post 1 alone, and the residual pass
  appends it to the list kept under the key \<^verbatim>\<open>standalone\<close>. Posts 2 and 3 then form a
  thread whose key is their conversation id, the same word, and \<^verbatim>\<open>threadMap.set\<close>
  (line 792) replaces the list that held post 1. The output is post 3 and post 2, each
  as a standalone post; post 1 is not emitted.
\<close>

theorem groupThreads_single_member_dropped:
  "distinct (map tweet_id strayAndPair) \<and>
   candidateGroup (buildTweetMap strayAndPair)
     \<lparr> heap = strayAndPair, processedIds = [], threadMap = [] \<rparr> 0 = [0] \<and>
   groupThreads 65535 isoDay strayAndPair =
     Inr [TweetItem (post ''3'' ''2024-01-03'' ''standalone'' ''2'' False (Some 1)),
          TweetItem (post ''2'' ''2024-01-02'' ''standalone'' [] False (Some 0))]"
  unfolding strayAndPair_posts by code_simp

text \<open>
  Posts that are each alone in their conversation form no self-thread, and the residual
  pass appends them one by one to the list kept under \<^verbatim>\<open>standalone\<close>. Decimal ids are
  distinct.
\<close>

lemma forEachTry_snoc:
  "forEachTry body (xs @ [x]) s =
     (case forEachTry body xs s of Inl e \<Rightarrow> Inl e | Inr s' \<Rightarrow> body x s')"
proof (induction xs arbitrary: s)
  case Nil
  show ?case by (cases "body x s") simp_all
next
  case (Cons y ys)
  show ?case by (cases "body y s") (simp_all add: Cons.IH)
qed

lemma fold_unchanged: "(\<And>x. x \<in> set xs \<Longrightarrow> f x s = s) \<Longrightarrow> fold f xs s = s"
  by (induction xs) simp_all

lemma digitsValue_snoc: "digitsValue (s @ [c]) = 10 * digitsValue s + (c - 48)"
  by (simp add: digitsValue_def)

lemma digitsValue_decimal: "digitsValue (decimal n) = n"
proof (induction n rule: decimal.induct)
  case (1 n)
  show ?case
  proof (cases "n < 10")
    case True
    then show ?thesis by (subst decimal.simps) (simp add: digitsValue_def)
  next
    case False
    then have "digitsValue (decimal (n div 10)) = n div 10" by (rule 1)
    then show ?thesis using False
      by (subst decimal.simps) (simp add: digitsValue_snoc)
  qed
qed

lemma decimal_inj: "decimal a = decimal b \<Longrightarrow> a = b"
proof -
  assume "decimal a = decimal b"
  then have "digitsValue (decimal a) = digitsValue (decimal b)" by (rule arg_cong)
  then show ?thesis by (simp only: digitsValue_decimal)
qed

lemma decimal_not_Nil: "decimal n \<noteq> []"
  by (subst decimal.simps) simp

lemma lonePost_fields:
  "tweet_id (processTweet (lonePost i)) = decimal i"
  "conversation_id (processTweet (lonePost i)) = Some (decimal i)"
  "thread_id (processTweet (lonePost i)) = Some (decimal i)"
  "in_reply_to_tweet_id (processTweet (lonePost i)) = None"
  "in_reply_to_user_id (processTweet (lonePost i)) = None"
  "is_self_thread (processTweet (lonePost i)) = False"
  by (simp_all add: processTweet_def lonePost_def Let_def str_or_def js_or_def truthy_def)

lemma lonePosts_nth: "i < n \<Longrightarrow> lonePosts n ! i = processTweet (lonePost i)"
  by (simp add: lonePosts_def)

lemma lonePosts_length: "length (lonePosts n) = n"
  by (simp add: lonePosts_def)

lemma lonePosts_distinct: "distinct (map tweet_id (lonePosts n))"
proof -
  have "map tweet_id (lonePosts n) = map decimal [0..<n]"
    by (simp add: lonePosts_def lonePost_fields)
  moreover have "inj_on decimal (set [0..<n])" by (rule inj_onI) (rule decimal_inj)
  ultimately show ?thesis by (simp add: distinct_map)
qed

lemma lonePosts_no_self_threads: "collectSelfThreads tweetMap (lonePosts n) = []"
proof -
  have "selfThreadStep tweetMap (lonePosts n) t s = s" if "t \<in> set (lonePosts n)" for t s
  proof -
    from that obtain i where "t = processTweet (lonePost i)" by (auto simp: lonePosts_def)
    then show ?thesis by (simp add: selfThreadStep_def lonePost_fields truthy_def)
  qed
  then show ?thesis unfolding collectSelfThreads_def by (intro fold_unchanged)
qed

lemma filter_at_most_one:
  assumes "distinct xs" "\<And>x. x \<in> set xs \<Longrightarrow> P x \<Longrightarrow> x = k"
  shows "length (filter P xs) \<le> 1"
proof -
  have "distinct (filter P xs)" using assms(1) by simp
  then have "length (filter P xs) = card (set (filter P xs))" by (rule distinct_card[symmetric])
  also have "set (filter P xs) \<subseteq> {k}" using assms(2) by auto
  then have "card (set (filter P xs)) \<le> card {k}" by (intro card_mono) simp_all
  finally show ?thesis by simp
qed

lemma lonePosts_candidateGroup:
  assumes "k < n"
  shows "length (candidateGroup tweetMap (loneState n k) k) \<le> 1"
proof -
  have "j = k" if "j \<in> set [0..<n]"
    and "isThreadMember tweetMap (map decimal [0..<k]) (processTweet (lonePost k))
           (residualThreadId (processTweet (lonePost k))) (lonePosts n ! j)" for j
  proof -
    from that(1) have j: "lonePosts n ! j = processTweet (lonePost j)" by (simp add: lonePosts_nth)
    have "residualThreadId (processTweet (lonePost k)) = decimal k"
      by (simp add: residualThreadId_def lonePost_fields str_or_def decimal_not_Nil)
    then have "decimal j = decimal k"
      using that(2) unfolding j by (auto simp: isThreadMember_def lonePost_fields truthy_def)
    then show ?thesis by (rule decimal_inj)
  qed
  then show ?thesis
    using assms unfolding candidateGroup_def
    by (intro filter_at_most_one) (simp_all add: loneState_def lonePosts_nth lonePosts_length)
qed

lemma lonePosts_residualStep:
  assumes "k < n"
  shows "residualStep maxArguments getTime tweetMap k (loneState n k) = Inr (loneState n (Suc k))"
proof -
  have h: "heap (loneState n k) ! k = processTweet (lonePost k)"
    using assms by (simp add: loneState_def lonePosts_nth)
  have fresh: "decimal k \<notin> set (processedIds (loneState n k))"
    by (auto simp: loneState_def dest!: decimal_inj)
  have "residualStep maxArguments getTime tweetMap k (loneState n k) =
      Inr ((loneState n k)\<lparr>processedIds := set_add (decimal k) (processedIds (loneState n k)),
                           threadMap := pushTo standalone k (threadMap (loneState n k))\<rparr>)"
    using lonePosts_candidateGroup[OF assms, of tweetMap] fresh
    by (simp add: residualStep_def Let_def h lonePost_fields)
  also have "(loneState n k)\<lparr>processedIds := set_add (decimal k) (processedIds (loneState n k)),
                           threadMap := pushTo standalone k (threadMap (loneState n k))\<rparr>
             = loneState n (Suc k)"
    using fresh by (simp add: loneState_def set_add_def pushTo_def)
  finally show ?thesis .
qed

lemma lonePosts_residual_pass:
  "k \<le> n \<Longrightarrow>
   forEachTry (residualStep maxArguments getTime tweetMap) [0..<k] (loneState n 0)
     = Inr (loneState n k)"
proof (induction k)
  case 0
  show ?case by simp
next
  case (Suc k)
  then have "forEachTry (residualStep maxArguments getTime tweetMap) [0..<k] (loneState n 0)
               = Inr (loneState n k)" by simp
  moreover have "residualStep maxArguments getTime tweetMap k (loneState n k)
               = Inr (loneState n (Suc k))"
    using Suc.prems by (intro lonePosts_residualStep) simp
  ultimately show ?case by (simp add: forEachTry_snoc)
qed

lemma lonePosts_sweep: "fold remainingStep [0..<n] (loneState n n) = loneState n n"
proof (rule fold_unchanged)
  fix i assume "i \<in> set [0..<n]"
  then have "tweet_id (heap (loneState n n) ! i) \<in> set (processedIds (loneState n n))"
    by (simp add: loneState_def lonePosts_nth lonePost_fields)
  then show "remainingStep i (loneState n n) = loneState n n"
    by (simp add: remainingStep_def Let_def)
qed

lemma lonePosts_grouped:
  "groupThreads maxArguments getTime (lonePosts n) =
     (case buildResult maxArguments (lonePosts n) (threadMap (loneState n n)) of
        Inl e \<Rightarrow> Inl e
      | Inr result \<Rightarrow> js_sort_try (newestFirst getTime) result)"
proof -
  have st0: "\<lparr> heap = lonePosts n, processedIds = [], threadMap = [] \<rparr> = loneState n 0"
    by (simp add: loneState_def)
  have h: "heap (loneState n n) = lonePosts n" by (simp add: loneState_def)
  show ?thesis
    by (simp add: groupThreads_def Let_def lonePosts_no_self_threads lonePosts_length st0
        lonePosts_residual_pass lonePosts_sweep h)
qed

text \<open>
  Three such posts on an engine that accepts three arguments come out as three
  standalone posts; on an engine that accepts two, the call fails.
\<close>

lemma lonePosts_three:
  "resultIds (groupThreads 3 isoDay (lonePosts 3)) = Inr [ [ascii ''0''], [ascii ''1''], [ascii ''2'']] \<and>
   groupThreads 2 isoDay (lonePosts 3) = Inl RangeError"
  by code_simp

section \<open>Properties of the reply-chain fetcher\<close>

lemma insort_cmp_key:
  "\<forall>y\<in>set ys. cmp x y = Num (k x - k y) \<Longrightarrow> insort_cmp cmp x ys = insort_key k x ys"
  by (induction ys) (auto simp: notAfter_def)

lemma js_sort_key:
  "\<forall>x\<in>set xs. \<forall>y\<in>set xs. cmp x y = Num (k x - k y) \<Longrightarrow> js_sort cmp xs = sort_key k xs"
proof (induction xs)
  case Nil
  then show ?case by (simp add: js_sort_def)
next
  case (Cons x xs)
  then have ih: "js_sort cmp xs = sort_key k xs" by simp
  have "\<forall>y\<in>set (sort_key k xs). cmp x y = Num (k x - k y)" using Cons.prems by simp
  then have "insort_cmp cmp x (sort_key k xs) = insort_key k x (sort_key k xs)"
    by (rule insort_cmp_key)
  then show ?case using ih by (simp add: js_sort_def)
qed

lemma dateCompare_key:
  "getTime (created_at a) \<noteq> NaN \<Longrightarrow> getTime (created_at b) \<noteq> NaN \<Longrightarrow>
   dateCompare getTime a b = Num (timeValue getTime a - timeValue getTime b)"
  by (cases "getTime (created_at a)"; cases "getTime (created_at b)")
     (simp_all add: dateCompare_def js_minus_def timeValue_def)

lemma js_sort_dates:
  assumes "\<forall>t\<in>set xs. getTime (created_at t) \<noteq> NaN"
  shows "js_sort (dateCompare getTime) xs = sort_key (timeValue getTime) xs"
  using assms by (intro js_sort_key) (simp add: dateCompare_key)

lemma finishReplies_sorted:
  assumes "length acc > 1" "\<forall>t\<in>set acc. getTime (created_at t) \<noteq> NaN"
  shows "map (timeValue getTime) (finishReplies getTime acc)
           = map (timeValue getTime) (sort_key (timeValue getTime) acc)"
proof -
  have "map (timeValue getTime) (map (\<lambda>(index, tweet). tweet\<lparr>thread_position := Some (int index),
            thread_index := Some (int index)\<rparr>) (enumerate 0 ys)) = map (timeValue getTime) ys" for ys
    by (auto simp: timeValue_def enumerate_eq_zip intro!: nth_equalityI)
  then show ?thesis using assms by (simp add: finishReplies_def js_sort_dates)
qed

lemma js_sort_length: "length (js_sort cmp xs) = length xs"
  unfolding js_sort_def
proof (induction xs)
  case Nil
  then show ?case by simp
next
  case (Cons x xs)
  have "length (insort_cmp cmp x ys) = Suc (length ys)" for ys
    by (induction ys) auto
  then show ?case using Cons by simp
qed

lemma finishReplies_length: "length (finishReplies getTime acc) = length acc"
  by (simp add: finishReplies_def js_sort_length)

lemma finishReplies_positions:
  assumes "length acc > 1" "i < length acc"
  shows "thread_position (finishReplies getTime acc ! i) = Some (int i) \<and>
         thread_index (finishReplies getTime acc ! i) = Some (int i) \<and>
         tweet_id (finishReplies getTime acc ! i) = tweet_id (js_sort (dateCompare getTime) acc ! i)"
  using assms by (simp add: finishReplies_def js_sort_length nth_enumerate_eq)

lemma filterReplies_subset:
  "filterReplies username ts u = (Inr rs, u') \<Longrightarrow> set rs \<subseteq> set ts"
proof (induction ts arbitrary: u rs u')
  case Nil
  then show ?case by simp
next
  case (Cons t ts)
  from Cons.prems obtain keep u1 rest where
    1: "replyFilter username t u = (Inr keep, u1)" and
    2: "filterReplies username ts u1 = (Inr rest, u')" and
    3: "rs = (if keep then t # rest else rest)"
    by (auto split: prod.splits sum.splits)
  from Cons.IH[OF 2] 3 show ?case by auto
qed

lemma processTweet_unplaced: "unplaced (processTweet raw)"
  by (simp add: unplaced_def processTweet_def Let_def)

lemma replyPage_unplaced:
  assumes "\<forall>t\<in>set (allReplies l). unplaced t"
    and "replyPage env tweetId username l g = (r, l', g')"
  shows "\<forall>t\<in>set (allReplies l'). unplaced t"
proof -
  have sub: "set rs \<subseteq> set (map processTweet raws) \<Longrightarrow> \<forall>t\<in>set rs. unplaced t" for rs raws
    using processTweet_unplaced by auto
  show ?thesis
    using assms sub
    by (auto simp: replyPage_def pushSpread_def Let_def
        split: sum.splits prod.splits option.splits if_splits dest!: filterReplies_subset)
qed

lemma replyPage_counts:
  "replyPage env tweetId username l g = (r, l', g') \<Longrightarrow>
     (case r of Inr _ \<Rightarrow> pageCount l' = pageCount l + 1 \<and> attempts l' = 0
      | Inl _ \<Rightarrow> pageCount l' = pageCount l \<and> attempts l' = attempts l)"
  by (auto simp: replyPage_def pushSpread_def Let_def
      split: sum.splits prod.splits option.splits if_splits)

lemma fetchRepliesLoop_unplaced:
  "\<forall>t\<in>set (allReplies l). unplaced t \<Longrightarrow>
   \<forall>t\<in>set (allReplies (fst (fetchRepliesLoop env maxPages tweetId username l g))). unplaced t"
proof (induction "(maxPages - pageCount l) * 4 + (3 - attempts l)" arbitrary: l g rule: less_induct)
  case less
  show ?case
  proof (cases "pageCount l \<ge> maxPages")
    case True
    then show ?thesis using less.prems by (simp add: fetchRepliesLoop.simps)
  next
    case False
    obtain r l1 g1 where p: "replyPage env tweetId username l g = (r, l1, g1)"
      by (cases "replyPage env tweetId username l g") auto
    have u1: "\<forall>t\<in>set (allReplies l1). unplaced t"
      using replyPage_unplaced[OF less.prems p] .
    note cnt = replyPage_counts[OF p]
    show ?thesis
    proof (cases r)
      case (Inr v)
      show ?thesis
      proof (cases "truthy (continuationToken l1) \<and> attempts l1 < 3 \<and> pageCount l1 < maxPages")
        case True
        have "(maxPages - pageCount l1) * 4 + (3 - attempts l1)
                < (maxPages - pageCount l) * 4 + (3 - attempts l)"
          using cnt Inr False by auto
        from less.hyps[OF this u1]
        show ?thesis
          using False p Inr True by (subst fetchRepliesLoop.simps) simp
      next
        case F: False
        then show ?thesis
          using False p Inr u1 by (subst fetchRepliesLoop.simps) auto
      qed
    next
      case (Inl e)
      let ?l2 = "l1\<lparr>attempts := attempts l1 + 1\<rparr>"
      let ?g2 = "sleep 2000 g1"
      have u2: "\<forall>t\<in>set (allReplies ?l2). unplaced t" using u1 by simp
      show ?thesis
      proof (cases "\<not> attempts ?l2 \<ge> 3 \<and> truthy (continuationToken ?l2) \<and> attempts ?l2 < 3 \<and>
                      pageCount ?l2 < maxPages")
        case True
        have "(maxPages - pageCount ?l2) * 4 + (3 - attempts ?l2)
                < (maxPages - pageCount l) * 4 + (3 - attempts l)"
          using cnt Inl True by auto
        from less.hyps[OF this u2, of ?g2]
        show ?thesis
          using False p Inl True by (subst fetchRepliesLoop.simps) (simp add: Let_def)
      next
        case F: False
        then show ?thesis
          using False p Inl u1 by (subst fetchRepliesLoop.simps) (auto simp: Let_def)
      qed
    qed
  qed
qed

lemma accumulatedReplies_unplaced:
  "\<forall>t\<in>set (accumulatedReplies env maxPages tweetId username g). unplaced t"
  unfolding accumulatedReplies_def by (rule fetchRepliesLoop_unplaced) simp

lemma fetchAllReplies_finish:
  "fst (fetchAllReplies env maxPages tweetId username g) =
     finishReplies (env_getTime env) (accumulatedReplies env maxPages tweetId username g)"
  by (simp add: fetchAllReplies_def accumulatedReplies_def split: prod.splits)

lemma placed_pair:
  assumes "map tweet_id rs = [a, b]"
    and "\<forall>i<length rs. thread_position (rs ! i) = Some (int i) \<and> thread_index (rs ! i) = Some (int i)"
  shows "map (\<lambda>t. (tweet_id t, thread_position t, thread_index t)) rs
           = [(a, Some 0, Some 0), (b, Some 1, Some 1)]"
proof -
  from assms(1) obtain x y where xy: "rs = [x, y]" by auto
  have "0 < length rs" "1 < length rs" unfolding xy by simp_all
  then have "thread_position (rs ! 0) = Some (int 0) \<and> thread_index (rs ! 0) = Some (int 0)"
    "thread_position (rs ! 1) = Some (int 1) \<and> thread_index (rs ! 1) = Some (int 1)"
    using assms(2) by blast+
  then show ?thesis using assms(1) unfolding xy by simp
qed

lemma placed_pair_dates:
  assumes "map (\<lambda>t. (tweet_id t, getTime (created_at t))) rs = [(a, u), (b, v)]"
    and "\<forall>i<length rs. thread_position (rs ! i) = Some (int i) \<and> thread_index (rs ! i) = Some (int i)"
  shows "map (\<lambda>t. (tweet_id t, getTime (created_at t), thread_position t, thread_index t)) rs
           = [(a, u, Some 0, Some 0), (b, v, Some 1, Some 1)]"
proof -
  from assms(1) obtain x y where xy: "rs = [x, y]" by auto
  have "0 < length rs" "1 < length rs" unfolding xy by simp_all
  then have "thread_position (rs ! 0) = Some (int 0) \<and> thread_index (rs ! 0) = Some (int 0)"
    "thread_position (rs ! 1) = Some (int 1) \<and> thread_index (rs ! 1) = Some (int 1)"
    using assms(2) by blast+
  then show ?thesis using assms(1) unfolding xy by simp
qed

text \<open>
  Claim C8, amended. Let \<open>acc\<close> be the replies accumulated over all pages. When \<open>acc\<close> has
  more than one reply, the returned list has the length of \<open>acc\<close> and every returned reply
  has \<open>thread_position\<close> and \<open>thread_index\<close> equal to its index; when, moreover, every
  \<^verbatim>\<open>created_at\<close> parses, the returned list is \<open>acc\<close> sorted by parsed time, ascending but
  not strictly (replies with equal times keep the order in which they were accumulated).
  When \<open>acc\<close> has at most one reply it is returned as it is, and no position is assigned.
\<close>

theorem fetchAllReplies_order:
  "(1 < length (accumulatedReplies env maxPages tweetId username g) \<longrightarrow>
      length (fst (fetchAllReplies env maxPages tweetId username g)) =
        length (accumulatedReplies env maxPages tweetId username g) \<and>
      (\<forall>i<length (fst (fetchAllReplies env maxPages tweetId username g)).
          thread_position (fst (fetchAllReplies env maxPages tweetId username g) ! i) = Some (int i) \<and>
          thread_index (fst (fetchAllReplies env maxPages tweetId username g) ! i) = Some (int i)) \<and>
      ((\<forall>t\<in>set (accumulatedReplies env maxPages tweetId username g).
            env_getTime env (created_at t) \<noteq> NaN) \<longrightarrow>
         sorted (map (timeValue (env_getTime env))
                     (fst (fetchAllReplies env maxPages tweetId username g))) \<and>
         map tweet_id (fst (fetchAllReplies env maxPages tweetId username g)) =
           map tweet_id (sort_key (timeValue (env_getTime env))
                           (accumulatedReplies env maxPages tweetId username g)))) \<and>
   (length (accumulatedReplies env maxPages tweetId username g) \<le> 1 \<longrightarrow>
      fst (fetchAllReplies env maxPages tweetId username g) =
        accumulatedReplies env maxPages tweetId username g \<and>
      (\<forall>t\<in>set (fst (fetchAllReplies env maxPages tweetId username g)).
          thread_position t = None \<and> thread_index t = None))"
proof (intro conjI impI)
  let ?acc = "accumulatedReplies env maxPages tweetId username g"
  let ?rs = "fst (fetchAllReplies env maxPages tweetId username g)"
  let ?time = "timeValue (env_getTime env)"
  have rs: "?rs = finishReplies (env_getTime env) ?acc" by (rule fetchAllReplies_finish)
  show len: "length ?rs = length ?acc" unfolding rs by (rule finishReplies_length)
  {
    assume a: "1 < length ?acc"
    have pos: "thread_position (?rs ! i) = Some (int i) \<and> thread_index (?rs ! i) = Some (int i) \<and>
         tweet_id (?rs ! i) = tweet_id (js_sort (dateCompare (env_getTime env)) ?acc ! i)"
      if "i < length ?acc" for i
      unfolding rs using a that by (intro finishReplies_positions) auto
    show "\<forall>i<length ?rs. thread_position (?rs ! i) = Some (int i) \<and>
            thread_index (?rs ! i) = Some (int i)"
      using pos len by simp
    have ids: "map tweet_id ?rs = map tweet_id (js_sort (dateCompare (env_getTime env)) ?acc)"
      using pos len by (intro nth_equalityI) (auto simp: js_sort_length)
    {
      assume p: "\<forall>t\<in>set ?acc. env_getTime env (created_at t) \<noteq> NaN"
      have "map ?time ?rs = map ?time (sort_key ?time ?acc)"
        unfolding rs using a p by (intro finishReplies_sorted) auto
      then show "sorted (map ?time ?rs)" by simp
      have "js_sort (dateCompare (env_getTime env)) ?acc = sort_key ?time ?acc"
        using p by (intro js_sort_dates) auto
      then show "map tweet_id ?rs = map tweet_id (sort_key ?time ?acc)"
        using ids by simp
    }
  }
  {
    assume b: "length ?acc \<le> 1"
    then show e: "?rs = ?acc" unfolding rs by (simp add: finishReplies_def)
    show "\<forall>t\<in>set ?rs. thread_position t = None \<and> thread_index t = None"
      unfolding e using accumulatedReplies_unplaced[of env maxPages tweetId username g]
      by (simp add: unplaced_def)
  }
qed

text \<open>
  C8 as stated fails. A fetch that finds a single reply returns it with no
  \<open>thread_position\<close> and no \<open>thread_index\<close>, not with 0. A fetch that finds two replies
  of the same second returns them at positions 0 and 1 with equal times: the list is not
  strictly ascending.
\<close>

theorem fetchAllReplies_order_counterexample:
  "map (\<lambda>t. (tweet_id t, thread_position t, thread_index t))
     (fst (fetchAllReplies (envWith (repliesServer [rawPost ''2'' ''2024-01-02'' [] ''1'' ''u1'']))
            4 (ascii ''1'') (ascii ''alice'') (gatewayAt Map.empty 0)))
     = [(ascii ''2'', None, None)] \<and>
   map (\<lambda>t. (tweet_id t, isoDay (created_at t), thread_position t))
     (fst (fetchAllReplies (envWith (repliesServer [rawPost ''2'' ''2024-01-02'' [] ''1'' ''u1'',
                                                     rawPost ''3'' ''2024-01-02'' [] ''2'' ''u1'']))
            4 (ascii ''1'') (ascii ''alice'') (gatewayAt Map.empty 0)))
     = [(ascii ''2'', Num 1704153600000, Some 0), (ascii ''3'', Num 1704153600000, Some 1)]"
  by code_simp

text \<open>
  C8 for a page that lists reply 3 (3 January) before reply 2 (2 January): the result is
  reply 2 at position 0 and reply 3 at position 1. For a page of two replies whose dates
  do not parse, the replies keep their order and get the positions 0 and 1. For a page
  with one reply the result is the accumulated list.
\<close>

theorem fetchAllReplies_order_witness:
  "map tweet_id (accumulatedReplies
       (envWith (repliesServer [rawPost ''3'' ''2024-01-03'' [] ''2'' ''u1'',
                                rawPost ''2'' ''2024-01-02'' [] ''1'' ''u1'']))
       4 (ascii ''1'') (ascii ''alice'') (gatewayAt Map.empty 0)) = [ascii ''3'', ascii ''2''] \<and>
   map (\<lambda>t. (tweet_id t, thread_position t, thread_index t))
     (fst (fetchAllReplies
       (envWith (repliesServer [rawPost ''3'' ''2024-01-03'' [] ''2'' ''u1'',
                                rawPost ''2'' ''2024-01-02'' [] ''1'' ''u1'']))
       4 (ascii ''1'') (ascii ''alice'') (gatewayAt Map.empty 0)))
     = [(ascii ''2'', Some 0, Some 0), (ascii ''3'', Some 1, Some 1)] \<and>
   sorted (map (timeValue isoDay) (fst (fetchAllReplies
       (envWith (repliesServer [rawPost ''3'' ''2024-01-03'' [] ''2'' ''u1'',
                                rawPost ''2'' ''2024-01-02'' [] ''1'' ''u1'']))
       4 (ascii ''1'') (ascii ''alice'') (gatewayAt Map.empty 0)))) \<and>
   map (\<lambda>t. (tweet_id t, isoDay (created_at t), thread_position t, thread_index t))
     (fst (fetchAllReplies
       (envWith (repliesServer [rawPost ''3'' ''yesterday'' [] ''2'' ''u1'',
                                rawPost ''2'' ''today'' [] ''1'' ''u1'']))
       4 (ascii ''1'') (ascii ''alice'') (gatewayAt Map.empty 0)))
     = [(ascii ''3'', NaN, Some 0, Some 0), (ascii ''2'', NaN, Some 1, Some 1)] \<and>
   length (accumulatedReplies (envWith (repliesServer [rawPost ''2'' ''2024-01-02'' [] ''1'' ''u1'']))
       4 (ascii ''1'') (ascii ''alice'') (gatewayAt Map.empty 0)) = 1 \<and>
   fst (fetchAllReplies (envWith (repliesServer [rawPost ''2'' ''2024-01-02'' [] ''1'' ''u1'']))
       4 (ascii ''1'') (ascii ''alice'') (gatewayAt Map.empty 0)) =
     accumulatedReplies (envWith (repliesServer [rawPost ''2'' ''2024-01-02'' [] ''1'' ''u1'']))
       4 (ascii ''1'') (ascii ''alice'') (gatewayAt Map.empty 0)"
proof -
  let ?env = "envWith (repliesServer [rawPost ''3'' ''2024-01-03'' [] ''2'' ''u1'',
                                      rawPost ''2'' ''2024-01-02'' [] ''1'' ''u1''])"
  let ?acc = "accumulatedReplies ?env 4 (ascii ''1'') (ascii ''alice'') (gatewayAt Map.empty 0)"
  let ?rs = "fst (fetchAllReplies ?env 4 (ascii ''1'') (ascii ''alice'') (gatewayAt Map.empty 0))"
  let ?envN = "envWith (repliesServer [rawPost ''3'' ''yesterday'' [] ''2'' ''u1'',
                                       rawPost ''2'' ''today'' [] ''1'' ''u1''])"
  let ?accN = "accumulatedReplies ?envN 4 (ascii ''1'') (ascii ''alice'') (gatewayAt Map.empty 0)"
  let ?rsN = "fst (fetchAllReplies ?envN 4 (ascii ''1'') (ascii ''alice'') (gatewayAt Map.empty 0))"
  let ?env1 = "envWith (repliesServer [rawPost ''2'' ''2024-01-02'' [] ''1'' ''u1''])"
  let ?acc1 = "accumulatedReplies ?env1 4 (ascii ''1'') (ascii ''alice'') (gatewayAt Map.empty 0)"
  have a: "map tweet_id ?acc = [ascii ''3'', ascii ''2'']" by code_simp
  have b: "1 < length ?acc \<and> (\<forall>t\<in>set ?acc. env_getTime ?env (created_at t) \<noteq> NaN)"
    by code_simp
  have bN: "1 < length ?accN" by code_simp
  have idsN: "map (\<lambda>t. (tweet_id t, isoDay (created_at t))) ?rsN
                = [(ascii ''3'', NaN), (ascii ''2'', NaN)]" by code_simp
  have ids: "map tweet_id ?rs = [ascii ''2'', ascii ''3'']" by code_simp
  have d: "length ?acc1 = 1" by code_simp
  have e: "env_getTime ?env = isoDay" by (simp add: envWith_def)
  note many = fetchAllReplies_order[of ?env 4 "ascii ''1''" "ascii ''alice''" "gatewayAt Map.empty 0"]
  note unparsed = fetchAllReplies_order[of ?envN 4 "ascii ''1''" "ascii ''alice''" "gatewayAt Map.empty 0"]
  note one = fetchAllReplies_order[of ?env1 4 "ascii ''1''" "ascii ''alice''" "gatewayAt Map.empty 0"]
  have pos: "\<forall>i<length ?rs. thread_position (?rs ! i) = Some (int i) \<and>
                thread_index (?rs ! i) = Some (int i)"
    using many b by blast
  have s: "sorted (map (timeValue isoDay) ?rs)" using many b unfolding e by blast
  have c: "map (\<lambda>t. (tweet_id t, thread_position t, thread_index t)) ?rs
     = [(ascii ''2'', Some 0, Some 0), (ascii ''3'', Some 1, Some 1)]"
    by (rule placed_pair[OF ids pos])
  have posN: "\<forall>i<length ?rsN. thread_position (?rsN ! i) = Some (int i) \<and>
                thread_index (?rsN ! i) = Some (int i)"
    using unparsed bN by blast
  have cN: "map (\<lambda>t. (tweet_id t, isoDay (created_at t), thread_position t, thread_index t)) ?rsN
     = [(ascii ''3'', NaN, Some 0, Some 0), (ascii ''2'', NaN, Some 1, Some 1)]"
    by (rule placed_pair_dates[OF idsN posN])
  have f: "fst (fetchAllReplies ?env1 4 (ascii ''1'') (ascii ''alice'') (gatewayAt Map.empty 0)) = ?acc1"
    using one d by simp
  show ?thesis using a c s cN d f by simp
qed

section \<open>Properties of the timeline fetch orchestrator\<close>

text \<open>
  A run against \<open>demoServer\<close>: three requests are sent (the user details, the timeline,
  the replies of post 1, the only post with a reply count), and the result is the two
  timeline posts followed by the two replies in ascending order of time, with positions.
  On an engine that accepts one argument in a call, the push of the two replies throws
  inside \<^verbatim>\<open>fetchAllReplies\<close>, which catches the error, pauses 2000 ms instead of 1000 ms and
  returns no reply.
\<close>

lemma fetchUserTweets_demo:
  "map_sum id (map (\<lambda>t. (tweet_id t, thread_position t)))
     (fst (fetchUserTweets (envWith demoServer) defaultConfig (ascii ''Alice'') None freshState))
   = Inr [(ascii ''1'', None), (ascii ''9'', None), (ascii ''2'', Some 0), (ascii ''3'', Some 1)] \<and>
   length (sentRequests (gateway (snd
     (fetchUserTweets (envWith demoServer) defaultConfig (ascii ''Alice'') None freshState)))) = 3"
  by code_simp

lemma fetchUserTweets_long_page:
  "map_sum id (map tweet_id)
     (fst (fetchUserTweets ((envWith demoServer)\<lparr>env_maxArguments := 1\<rparr>) defaultConfig
            (ascii ''Alice'') None freshState)) = Inr [ascii ''1'', ascii ''9''] \<and>
   clock (gateway (snd (fetchUserTweets ((envWith demoServer)\<lparr>env_maxArguments := 1\<rparr>)
            defaultConfig (ascii ''Alice'') None freshState))) =
     clock (gateway (snd (fetchUserTweets (envWith demoServer) defaultConfig (ascii ''Alice'')
            None freshState))) + 1000"
  by code_simp

text \<open>
  \<open>fetchUserTweets\<close> always resolves with a list, never with an error: when anything
  inside its \<^verbatim>\<open>try\<close> block throws (a failed request, a \<^verbatim>\<open>null\<close> body, a missing user id, a
  post without a handle, a spread of too long an array), the result is the empty list
  and one notification is shown. For a server that answers every request with 404, the
  request for the user details fails and the result is the empty list.
\<close>

lemma fetchUserTweets_resolves:
  "(\<exists>tweets. fst (fetchUserTweets env cfg username options s) = Inr tweets) \<and>
   (\<forall>e. fst (fetchUserTweetsBody env cfg username options s) = Inl e \<longrightarrow>
        fst (fetchUserTweets env cfg username options s) = Inr [] \<and>
        toasts (snd (fetchUserTweets env cfg username options s)) =
          toasts (snd (fetchUserTweetsBody env cfg username options s)) + 1)"
proof (intro conjI allI impI)
  obtain r s' where b: "fetchUserTweetsBody env cfg username options s = (r, s')"
    by (cases "fetchUserTweetsBody env cfg username options s")
  show "\<exists>tweets. fst (fetchUserTweets env cfg username options s) = Inr tweets"
    by (cases r) (simp_all add: fetchUserTweets_def b)
  fix e assume "fst (fetchUserTweetsBody env cfg username options s) = Inl e"
  then have "r = Inl e" using b by simp
  then show "fst (fetchUserTweets env cfg username options s) = Inr []"
    and "toasts (snd (fetchUserTweets env cfg username options s)) =
          toasts (snd (fetchUserTweetsBody env cfg username options s)) + 1"
    by (simp_all add: fetchUserTweets_def b)
qed

lemma fetchUserTweets_not_found:
  "fst (fetchUserTweetsBody (envWith notFoundServer) defaultConfig (ascii ''Alice'') None freshState)
      = Inl (ApiError 404) \<and>
   fst (fetchUserTweets (envWith notFoundServer) defaultConfig (ascii ''Alice'') None freshState)
      = Inr [] \<and>
   toasts (snd (fetchUserTweets (envWith notFoundServer) defaultConfig (ascii ''Alice'') None
                 freshState)) = 1"
  by code_simp

text \<open>
  Claim C9 does not hold of the code. Its first half does (\<open>fetchUserTweets_resolves\<close>).
  \<^verbatim>\<open>groupThreads\<close> has no \<^verbatim>\<open>try\<close> block around its calls with a spread argument. For every
  bound \<open>maxArguments\<close> of the engine, take more posts than that, with distinct ids and each
  alone in its conversation: the residual pass files them all under \<^verbatim>\<open>standalone\<close>, the
  result loop passes that list as the arguments of one call (line 820), and
  \<^verbatim>\<open>groupThreads\<close> ends with a \<^verbatim>\<open>RangeError\<close> instead of a result.
\<close>

theorem groupThreads_argument_limit:
  "distinct (map tweet_id (lonePosts (Suc maxArguments + k))) \<and>
   groupThreads maxArguments getTime (lonePosts (Suc maxArguments + k)) = Inl RangeError"
proof
  show "distinct (map tweet_id (lonePosts (Suc maxArguments + k)))" by (rule lonePosts_distinct)
  have "buildResult maxArguments (lonePosts (Suc maxArguments + k))
          (threadMap (loneState (Suc maxArguments + k) (Suc maxArguments + k))) = Inl RangeError"
    by (simp add: buildResult_def loneState_def pushEntry_def pushSpread_def)
  then show "groupThreads maxArguments getTime (lonePosts (Suc maxArguments + k)) = Inl RangeError"
    by (simp add: lonePosts_grouped)
qed

end
